theory Spec2Isabelle
  imports Main "HOL-Library.Word"
begin

section \<open>Machine types of the contract\<close>

text \<open>
  The verified program is the Solidity contract \<open>FHEAMM\<close> (contracts/FHEAMM.sol).
  Its clear values are \<open>uint32\<close>, \<open>uint256\<close>, \<open>address\<close> and \<open>bytes32\<close>; its encrypted
  values are \<open>euint32\<close> and \<open>ebool\<close> of the FHEVM library.
\<close>

type_synonym uint32 = "32 word"
type_synonym uint256 = "256 word"
type_synonym address = "160 word"
type_synonym bytes32 = "256 word"
type_synonym byte = "8 word"


section \<open>The encrypted arithmetic domain\<close>

text \<open>
  The FHEVM library (\<open>@fhevm/solidity\<close>, version \<open>^0.8.0\<close>) is an external dependency of
  the contract. It is modelled as an ideal functionality: an encrypted value is a handle
  together with the cleartext its ciphertext decrypts to.

  Handles are deterministic. The handle of a trivial encryption is determined by the
  constant. The handle of an imported ciphertext is the handle the caller supplies (the
  client computes it when it encrypts, and passes it as the \<open>externalEuint32\<close> argument).
  The handle of the result of an operator is determined by the operator and the handles
  of its operands (the library hashes them); the model keeps the operator and the operand
  handles themselves, which is a hash without collisions. So the same import, or the same
  operator on the same operands, gives the same handle again.

  The access control list is the set of pairs of a handle and an address with a
  persistent decryption grant on it. It belongs to the library, not to the contract:
  a grant is attached to a handle, and it stays when the contract stores the handle
  again. \<open>FHE.allow\<close> is the call \<open>ACL.allow(handle, account)\<close> made by the contract; the
  same function is open to every account that holds a grant on the handle, which can so
  pass its grant on. Transient grants within a transaction are not modelled, and neither
  is the coprocessor's check that the calling contract may use its operands (the contract
  calls \<open>allowThis\<close> on every value it stores).

  Arithmetic on \<open>euint32\<close> is the arithmetic of \<open>uint32\<close>: unchecked, modulo \<open>2^32\<close>. The
  operators \<open>add\<close>, \<open>sub\<close> and \<open>ge\<close> replace an uninitialised operand by
  \<open>asEuint32(0)\<close>; \<open>select\<close> is only ever called on initialised operands.
\<close>

datatype handle =
    Null
  | Trivial uint32
  | Input bytes32
  | FheAdd handle handle
  | FheSub handle handle
  | FheGe handle handle
  | FheIfThenElse handle handle handle

datatype euint32 = Uninitialized | Enc handle uint32

datatype ebool = EncBool handle bool

text \<open>
  An external ciphertext: the handle the caller passes, and the cleartext the ciphertext
  behind that handle encrypts.
\<close>

datatype externalEuint32 = External bytes32 uint32

text \<open>
  An input proof certifies a list of external ciphertexts for one user and one contract;
  \<open>FHE.fromExternal\<close> reverts unless the proof certifies the ciphertext for the caller and
  the calling contract. In the version of the library the contract declares, every import
  verifies its proof.
\<close>

record inputProof =
  proofUser :: address
  proofContract :: address
  proofInputs :: "externalEuint32 list"

datatype error =
    InvalidCiphertextProof
  | Unauthorized address
  | IndexOutOfRange
  | SenderNotAllowed address

record fhevm =
  acl :: "(handle \<times> address) set"

fun isInitialized :: "euint32 \<Rightarrow> bool" where
  "isInitialized Uninitialized = False"
| "isInitialized (Enc h v) = True"

text \<open>The handle of an encrypted value; the uninitialised value is the null handle.\<close>

fun handleOf :: "euint32 \<Rightarrow> handle" where
  "handleOf Uninitialized = Null"
| "handleOf (Enc h v) = h"

fun handleOfBool :: "ebool \<Rightarrow> handle" where
  "handleOfBool (EncBool h b) = h"

text \<open>
  The cleartext behind an encrypted value. The uninitialised handle reads as 0: every
  arithmetic operator of the library replaces it by \<open>asEuint32(0)\<close>, and the client shows
  0 for it.
\<close>

fun dec :: "euint32 \<Rightarrow> uint32" where
  "dec Uninitialized = 0"
| "dec (Enc h v) = v"

fun decb :: "ebool \<Rightarrow> bool" where
  "decb (EncBool h b) = b"

definition FHE_asEuint32 :: "uint32 \<Rightarrow> euint32" where
  "FHE_asEuint32 v = Enc (Trivial v) v"

text \<open>The import returns the handle it was given, once the proof is verified.\<close>

definition FHE_fromExternal ::
  "externalEuint32 \<Rightarrow> inputProof \<Rightarrow> address \<Rightarrow> address \<Rightarrow> error + euint32" where
  "FHE_fromExternal ext prf user contract =
     (if proofUser prf = user \<and> proofContract prf = contract \<and> ext \<in> set (proofInputs prf)
      then (case ext of External h v \<Rightarrow> Inr (Enc (Input h) v))
      else Inl InvalidCiphertextProof)"

definition FHE_add :: "euint32 \<Rightarrow> euint32 \<Rightarrow> euint32" where
  "FHE_add a b =
     (let a = (if isInitialized a then a else FHE_asEuint32 0);
          b = (if isInitialized b then b else FHE_asEuint32 0)
      in Enc (FheAdd (handleOf a) (handleOf b)) (dec a + dec b))"

definition FHE_sub :: "euint32 \<Rightarrow> euint32 \<Rightarrow> euint32" where
  "FHE_sub a b =
     (let a = (if isInitialized a then a else FHE_asEuint32 0);
          b = (if isInitialized b then b else FHE_asEuint32 0)
      in Enc (FheSub (handleOf a) (handleOf b)) (dec a - dec b))"

definition FHE_ge :: "euint32 \<Rightarrow> euint32 \<Rightarrow> ebool" where
  "FHE_ge a b =
     (let a = (if isInitialized a then a else FHE_asEuint32 0);
          b = (if isInitialized b then b else FHE_asEuint32 0)
      in EncBool (FheGe (handleOf a) (handleOf b)) (dec b \<le> dec a))"

definition FHE_select :: "ebool \<Rightarrow> euint32 \<Rightarrow> euint32 \<Rightarrow> euint32" where
  "FHE_select c a b =
     Enc (FheIfThenElse (handleOfBool c) (handleOf a) (handleOf b))
       (if decb c then dec a else dec b)"

definition FHE_allow :: "euint32 \<Rightarrow> address \<Rightarrow> 'a fhevm_scheme \<Rightarrow> 'a fhevm_scheme" where
  "FHE_allow e account f =
     f\<lparr>acl := (case e of
                 Uninitialized \<Rightarrow> acl f
               | Enc h v \<Rightarrow> insert (h, account) (acl f))\<rparr>"

text \<open>\<open>FHE.allowThis(e)\<close> is \<open>FHE.allow(e, address(this))\<close>.\<close>

definition FHE_allowThis :: "euint32 \<Rightarrow> address \<Rightarrow> 'a fhevm_scheme \<Rightarrow> 'a fhevm_scheme" where
  "FHE_allowThis e this_address f = FHE_allow e this_address f"

text \<open>
  \<open>ACL.allow(handle, account)\<close> called by an account itself: it reverts unless the caller
  holds a grant on the handle.
\<close>

definition ACL_allow ::
  "address \<Rightarrow> handle \<Rightarrow> address \<Rightarrow> 'a fhevm_scheme \<Rightarrow> error + 'a fhevm_scheme" where
  "ACL_allow caller h account f =
     (if (h, caller) \<in> acl f then Inr (f\<lparr>acl := insert (h, account) (acl f)\<rparr>)
      else Inl (SenderNotAllowed caller))"

text \<open>The addresses holding a persistent grant on an encrypted value.\<close>

definition grantees :: "'a fhevm_scheme \<Rightarrow> euint32 \<Rightarrow> address set" where
  "grantees f e = (case e of Uninitialized \<Rightarrow> {} | Enc h v \<Rightarrow> {a. (h, a) \<in> acl f})"

section \<open>Storage of the contract\<close>

record Position =
  liquidity :: euint32
  priceLower :: euint32
  priceUpper :: euint32
  exists :: bool

datatype event =
    PositionSubmitted address
  | VolatilitySubmitted address
  | ParametersApplied uint32 uint32

record FHEAMM = fhevm +
  thisAddress :: address
  owner :: address
  positions :: "address \<Rightarrow> Position"
  aggLiquidity :: euint32
  sumPriceLower :: euint32
  sumPriceUpper :: euint32
  numPositions :: euint32
  twoTimesNumPositions :: euint32
  suggestedFeeRatio :: euint32
  suggestedTickSpacing :: euint32
  appliedFeeRatio :: uint32
  appliedTickSpacing :: uint32
  actionHashes :: "bytes32 list"
  events :: "event list"

text \<open>The transaction context: \<open>msg.sender\<close> and \<open>block.timestamp\<close>.\<close>

record msg =
  sender :: address
  timestamp :: uint256

section \<open>Audit trail helpers\<close>

text \<open>
  \<open>abi.encodePacked(action, msg.sender, block.timestamp)\<close>: the bytes of the string, the
  20 bytes of the address and the 32 bytes of the timestamp, big-endian. \<open>keccak256\<close> is a
  parameter of the model.
\<close>

definition bigEndian :: "nat \<Rightarrow> 'a::len word \<Rightarrow> byte list" where
  "bigEndian n w = map (\<lambda>i. ucast (drop_bit (8 * i) w)) (rev [0..<n])"

definition stringBytes :: "string \<Rightarrow> byte list" where
  "stringBytes s = map (\<lambda>c. of_nat (of_char c)) s"

definition encodePacked :: "string \<Rightarrow> address \<Rightarrow> uint256 \<Rightarrow> byte list" where
  "encodePacked action who ts = stringBytes action @ bigEndian 20 who @ bigEndian 32 ts"

definition pushAction :: "(byte list \<Rightarrow> bytes32) \<Rightarrow> msg \<Rightarrow> string \<Rightarrow> FHEAMM \<Rightarrow> FHEAMM" where
  "pushAction keccak256 m action s =
     (let h = keccak256 (encodePacked action (sender m) (timestamp m))
      in s\<lparr>actionHashes := actionHashes s @ [h]\<rparr>)"

definition emit :: "event \<Rightarrow> FHEAMM \<Rightarrow> FHEAMM" where
  "emit e s = s\<lparr>events := events s @ [e]\<rparr>"

definition getActionsLength :: "FHEAMM \<Rightarrow> uint256" where
  "getActionsLength s = of_nat (length (actionHashes s))"

text \<open>An array read out of bounds reverts (Solidity panic 0x32).\<close>

definition getActionAt :: "FHEAMM \<Rightarrow> uint256 \<Rightarrow> error + bytes32" where
  "getActionAt s index =
     (if unat index < length (actionHashes s)
      then Inr (actionHashes s ! unat index)
      else Inl IndexOutOfRange)"


section \<open>Construction\<close>

text \<open>
  \<open>Ownable(msg.sender)\<close> makes the deployer the owner; all other storage starts at zero.
\<close>

definition constructor :: "msg \<Rightarrow> address \<Rightarrow> FHEAMM" where
  "constructor m self =
     (let s = \<lparr> acl = {},
                thisAddress = self, owner = sender m,
                positions = (\<lambda>a. \<lparr> liquidity = Uninitialized, priceLower = Uninitialized,
                                     priceUpper = Uninitialized, exists = False \<rparr>),
                aggLiquidity = Uninitialized, sumPriceLower = Uninitialized,
                sumPriceUpper = Uninitialized, numPositions = Uninitialized,
                twoTimesNumPositions = Uninitialized,
                suggestedFeeRatio = Uninitialized, suggestedTickSpacing = Uninitialized,
                appliedFeeRatio = 0, appliedTickSpacing = 0,
                actionHashes = [], events = [] \<rparr>;
          s = s\<lparr>suggestedFeeRatio := FHE_asEuint32 0\<rparr>;
          s = s\<lparr>suggestedTickSpacing := FHE_asEuint32 0\<rparr>;
          s = FHE_allowThis (suggestedFeeRatio s) (thisAddress s) s;
          s = FHE_allowThis (suggestedTickSpacing s) (thisAddress s) s
      in s)"

section \<open>Governance\<close>

text \<open>
  \<open>onlyOwner\<close> reverts with \<open>OwnableUnauthorizedAccount(msg.sender)\<close> unless the caller is
  the owner.
\<close>

definition applyParameters ::
  "(byte list \<Rightarrow> bytes32) \<Rightarrow> msg \<Rightarrow> uint32 \<Rightarrow> uint32 \<Rightarrow> FHEAMM \<Rightarrow> error + FHEAMM" where
  "applyParameters keccak256 m feeRatioClear tickSpacingClear s =
     (if owner s \<noteq> sender m then Inl (Unauthorized (sender m))
      else
        (let s = s\<lparr>appliedFeeRatio := feeRatioClear\<rparr>;
             s = s\<lparr>appliedTickSpacing := tickSpacingClear\<rparr>;
             s = pushAction keccak256 m ''APPLY_PARAMETERS'' s;
             s = emit (ParametersApplied feeRatioClear tickSpacingClear) s
         in Inr s))"

section \<open>Position submit and update\<close>

definition submitPosition ::
  "(byte list \<Rightarrow> bytes32) \<Rightarrow> msg \<Rightarrow> externalEuint32 \<Rightarrow> externalEuint32 \<Rightarrow> externalEuint32
     \<Rightarrow> inputProof \<Rightarrow> FHEAMM \<Rightarrow> error + FHEAMM" where
  "submitPosition keccak256 m encLiquidity encPriceLower encPriceUpper prf s =
     (case FHE_fromExternal encLiquidity prf (sender m) (thisAddress s) of
        Inl e \<Rightarrow> Inl e
      | Inr liq \<Rightarrow>
     (case FHE_fromExternal encPriceLower prf (sender m) (thisAddress s) of
        Inl e \<Rightarrow> Inl e
      | Inr pl \<Rightarrow>
     (case FHE_fromExternal encPriceUpper prf (sender m) (thisAddress s) of
        Inl e \<Rightarrow> Inl e
      | Inr pu \<Rightarrow>
     (let p = positions s (sender m);
          s = (if exists p then
                 (let s = s\<lparr>aggLiquidity := FHE_sub (aggLiquidity s) (liquidity p)\<rparr>;
                      s = s\<lparr>sumPriceLower := FHE_sub (sumPriceLower s) (priceLower p)\<rparr>;
                      s = s\<lparr>sumPriceUpper := FHE_sub (sumPriceUpper s) (priceUpper p)\<rparr>
                  in s)
               else
                 (let s = s\<lparr>numPositions := FHE_add (numPositions s) (FHE_asEuint32 1)\<rparr>;
                      s = FHE_allowThis (numPositions s) (thisAddress s) s;
                      s = FHE_allow (numPositions s) (sender m) s;
                      s = FHE_allow (numPositions s) (owner s) s;
                      s = s\<lparr>twoTimesNumPositions :=
                             FHE_add (twoTimesNumPositions s) (FHE_asEuint32 2)\<rparr>;
                      s = FHE_allowThis (twoTimesNumPositions s) (thisAddress s) s;
                      s = FHE_allow (twoTimesNumPositions s) (sender m) s;
                      s = FHE_allow (twoTimesNumPositions s) (owner s) s
                  in s));
          s = s\<lparr>aggLiquidity := FHE_add (aggLiquidity s) liq\<rparr>;
          s = s\<lparr>sumPriceLower := FHE_add (sumPriceLower s) pl\<rparr>;
          s = s\<lparr>sumPriceUpper := FHE_add (sumPriceUpper s) pu\<rparr>;
          s = s\<lparr>positions := (positions s)(sender m :=
                 \<lparr> liquidity = liq, priceLower = pl, priceUpper = pu, exists = True \<rparr>)\<rparr>;
          s = FHE_allowThis (aggLiquidity s) (thisAddress s) s;
          s = FHE_allowThis (sumPriceLower s) (thisAddress s) s;
          s = FHE_allowThis (sumPriceUpper s) (thisAddress s) s;
          s = FHE_allow (aggLiquidity s) (sender m) s;
          s = FHE_allow (sumPriceLower s) (sender m) s;
          s = FHE_allow (sumPriceUpper s) (sender m) s;
          s = FHE_allow (aggLiquidity s) (owner s) s;
          s = FHE_allow (sumPriceLower s) (owner s) s;
          s = FHE_allow (sumPriceUpper s) (owner s) s;
          s = FHE_allowThis (liquidity (positions s (sender m))) (thisAddress s) s;
          s = FHE_allowThis (priceLower (positions s (sender m))) (thisAddress s) s;
          s = FHE_allowThis (priceUpper (positions s (sender m))) (thisAddress s) s;
          s = FHE_allow (liquidity (positions s (sender m))) (sender m) s;
          s = FHE_allow (priceLower (positions s (sender m))) (sender m) s;
          s = FHE_allow (priceUpper (positions s (sender m))) (sender m) s;
          s = FHE_allow (liquidity (positions s (sender m))) (owner s) s;
          s = FHE_allow (priceLower (positions s (sender m))) (owner s) s;
          s = FHE_allow (priceUpper (positions s (sender m))) (owner s) s;
          s = pushAction keccak256 m ''SUBMIT_POSITION'' s;
          s = emit (PositionSubmitted (sender m)) s
      in Inr s))))"

section \<open>Volatility-driven suggestion update\<close>

definition submitVolatility ::
  "(byte list \<Rightarrow> bytes32) \<Rightarrow> msg \<Rightarrow> externalEuint32 \<Rightarrow> inputProof \<Rightarrow> FHEAMM
     \<Rightarrow> error + FHEAMM" where
  "submitVolatility keccak256 m encVolatility prf s =
     (case FHE_fromExternal encVolatility prf (sender m) (thisAddress s) of
        Inl e \<Rightarrow> Inl e
      | Inr vol \<Rightarrow>
     (let threshold = FHE_asEuint32 50;
          delta = FHE_asEuint32 1;
          ge = FHE_ge vol threshold;
          s = s\<lparr>suggestedFeeRatio :=
                 FHE_select ge (FHE_add (suggestedFeeRatio s) delta) (suggestedFeeRatio s)\<rparr>;
          s = s\<lparr>suggestedTickSpacing :=
                 FHE_select ge (FHE_add (suggestedTickSpacing s) delta) (suggestedTickSpacing s)\<rparr>;
          s = FHE_allowThis (suggestedFeeRatio s) (thisAddress s) s;
          s = FHE_allowThis (suggestedTickSpacing s) (thisAddress s) s;
          s = FHE_allow (suggestedFeeRatio s) (sender m) s;
          s = FHE_allow (suggestedTickSpacing s) (sender m) s;
          s = FHE_allow (suggestedFeeRatio s) (owner s) s;
          s = FHE_allow (suggestedTickSpacing s) (owner s) s;
          s = pushAction keccak256 m ''SUBMIT_VOLATILITY'' s;
          s = emit (VolatilitySubmitted (sender m)) s
      in Inr s))"

section \<open>Read queries\<close>

definition getAggregates :: "FHEAMM \<Rightarrow> euint32 \<times> euint32 \<times> euint32 \<times> euint32" where
  "getAggregates s = (aggLiquidity s, sumPriceLower s, sumPriceUpper s, twoTimesNumPositions s)"

definition getSuggestions :: "FHEAMM \<Rightarrow> euint32 \<times> euint32" where
  "getSuggestions s = (suggestedFeeRatio s, suggestedTickSpacing s)"

definition getMyPosition :: "msg \<Rightarrow> FHEAMM \<Rightarrow> euint32 \<times> euint32 \<times> euint32 \<times> bool" where
  "getMyPosition m s =
     (let p = positions s (sender m) in (liquidity p, priceLower p, priceUpper p, exists p))"

section \<open>The state machine\<close>

text \<open>
  A transaction is a call of one of the three state-changing functions of the contract in
  a transaction context. A call that reverts leaves the state as it was. The functions
  inherited from \<open>Ownable\<close> that hand the ownership over are not part of the model: the
  owner is the deployer throughout.
\<close>

datatype call =
    SubmitPosition externalEuint32 externalEuint32 externalEuint32 inputProof
  | SubmitVolatility externalEuint32 inputProof
  | ApplyParameters uint32 uint32

fun exec :: "(byte list \<Rightarrow> bytes32) \<Rightarrow> msg \<times> call \<Rightarrow> FHEAMM \<Rightarrow> error + FHEAMM" where
  "exec keccak256 (m, SubmitPosition l pl pu prf) s = submitPosition keccak256 m l pl pu prf s"
| "exec keccak256 (m, SubmitVolatility v prf) s = submitVolatility keccak256 m v prf s"
| "exec keccak256 (m, ApplyParameters f t) s = applyParameters keccak256 m f t s"

definition step :: "(byte list \<Rightarrow> bytes32) \<Rightarrow> FHEAMM \<Rightarrow> msg \<times> call \<Rightarrow> FHEAMM" where
  "step keccak256 s tx = (case exec keccak256 tx s of Inl e \<Rightarrow> s | Inr s' \<Rightarrow> s')"

definition run :: "(byte list \<Rightarrow> bytes32) \<Rightarrow> FHEAMM \<Rightarrow> (msg \<times> call) list \<Rightarrow> FHEAMM" where
  "run keccak256 s txs = foldl (step keccak256) s txs"

section \<open>Notions used to state the properties\<close>

text \<open>The handle of an external ciphertext and the value it encrypts.\<close>

fun handleId :: "externalEuint32 \<Rightarrow> bytes32" where
  "handleId (External h v) = h"

fun cleartext :: "externalEuint32 \<Rightarrow> uint32" where
  "cleartext (External h v) = v"

text \<open>The encrypted value a verified import returns.\<close>

definition imported :: "externalEuint32 \<Rightarrow> euint32" where
  "imported ext = Enc (Input (handleId ext)) (cleartext ext)"

text \<open>
  The value \<open>submitVolatility\<close> stores in a suggestion field holding \<open>x\<close>, for the imported
  volatility \<open>v\<close>.
\<close>

definition updated :: "externalEuint32 \<Rightarrow> euint32 \<Rightarrow> euint32" where
  "updated v x =
     FHE_select (FHE_ge (imported v) (FHE_asEuint32 50)) (FHE_add x (FHE_asEuint32 1)) x"

text \<open>
  The check of \<open>FHE.fromExternal\<close>: the proof certifies the ciphertext for the caller and
  for this contract.
\<close>

definition certified :: "inputProof \<Rightarrow> msg \<Rightarrow> FHEAMM \<Rightarrow> externalEuint32 \<Rightarrow> bool" where
  "certified prf m s ext \<longleftrightarrow>
     proofUser prf = sender m \<and> proofContract prf = thisAddress s \<and> ext \<in> set (proofInputs prf)"

text \<open>The three parties of the authorization rule: the contract, the caller, the owner.\<close>

definition parties :: "msg \<Rightarrow> FHEAMM \<Rightarrow> address set" where
  "parties m s = {thisAddress s, sender m, owner s}"

text \<open>The co-derivation of the two counters, modulo \<open>2^32\<close>.\<close>

definition coDerived :: "FHEAMM \<Rightarrow> bool" where
  "coDerived s \<longleftrightarrow>
     unat (dec (twoTimesNumPositions s)) = (2 * unat (dec (numPositions s))) mod 2 ^ 32"

text \<open>The tag of a call and the digest its audit entry must carry.\<close>

fun actionTag :: "call \<Rightarrow> string" where
  "actionTag (SubmitPosition l pl pu prf) = ''SUBMIT_POSITION''"
| "actionTag (SubmitVolatility v prf) = ''SUBMIT_VOLATILITY''"
| "actionTag (ApplyParameters f t) = ''APPLY_PARAMETERS''"

definition actionDigest :: "(byte list \<Rightarrow> bytes32) \<Rightarrow> string \<Rightarrow> address \<Rightarrow> uint256 \<Rightarrow> bytes32" where
  "actionDigest keccak256 action who ts = keccak256 (encodePacked action who ts)"

definition txDigest :: "(byte list \<Rightarrow> bytes32) \<Rightarrow> msg \<times> call \<Rightarrow> bytes32" where
  "txDigest keccak256 tx =
     actionDigest keccak256 (actionTag (snd tx)) (sender (fst tx)) (timestamp (fst tx))"

text \<open>The calls of a sequence that succeed when the sequence runs from a state.\<close>

fun successes :: "(byte list \<Rightarrow> bytes32) \<Rightarrow> FHEAMM \<Rightarrow> (msg \<times> call) list \<Rightarrow> (msg \<times> call) list" where
  "successes keccak256 s [] = []"
| "successes keccak256 s (tx # txs) =
     (case exec keccak256 tx s of
        Inl e \<Rightarrow> successes keccak256 s txs
      | Inr s' \<Rightarrow> tx # successes keccak256 s' txs)"

text \<open>
  The position a transaction submits for the contract at address \<open>self\<close>: the caller and
  the three cleartexts, when the call is a \<open>submitPosition\<close> whose three imports verify.
\<close>

fun submission :: "address \<Rightarrow> msg \<times> call \<Rightarrow> (address \<times> uint32 \<times> uint32 \<times> uint32) option" where
  "submission self (m, SubmitPosition l pl pu prf) =
     (if proofUser prf = sender m \<and> proofContract prf = self \<and>
         l \<in> set (proofInputs prf) \<and> pl \<in> set (proofInputs prf) \<and> pu \<in> set (proofInputs prf)
      then Some (sender m, cleartext l, cleartext pl, cleartext pu)
      else None)"
| "submission self (m, SubmitVolatility v prf) = None"
| "submission self (m, ApplyParameters f t) = None"

text \<open>The most recently submitted position of every identity, over a sequence.\<close>

definition record_submission ::
  "address \<Rightarrow> (address \<rightharpoonup> uint32 \<times> uint32 \<times> uint32) \<Rightarrow> msg \<times> call
     \<Rightarrow> (address \<rightharpoonup> uint32 \<times> uint32 \<times> uint32)" where
  "record_submission self latest tx =
     (case submission self tx of None \<Rightarrow> latest | Some (a, v) \<Rightarrow> latest(a \<mapsto> v))"

definition latest ::
  "address \<Rightarrow> (msg \<times> call) list \<Rightarrow> (address \<rightharpoonup> uint32 \<times> uint32 \<times> uint32)" where
  "latest self txs = foldl (record_submission self) Map.empty txs"

text \<open>
  What the position of an identity must show, given its most recent submission: the
  flag \<open>exists\<close> and the three cleartexts.
\<close>

definition shown :: "(uint32 \<times> uint32 \<times> uint32) option \<Rightarrow> bool \<times> uint32 \<times> uint32 \<times> uint32" where
  "shown v = (case v of None \<Rightarrow> (False, 0, 0, 0) | Some (l, pl, pu) \<Rightarrow> (True, l, pl, pu))"

definition view :: "Position \<Rightarrow> bool \<times> uint32 \<times> uint32 \<times> uint32" where
  "view p = (exists p, dec (liquidity p), dec (priceLower p), dec (priceUpper p))"

text \<open>The handle of an encrypted value, as a set (empty when uninitialised).\<close>

fun handles :: "euint32 \<Rightarrow> handle set" where
  "handles Uninitialized = {}"
| "handles (Enc h v) = {h}"

text \<open>The set of grants an operation adds: the three parties on each value it names.\<close>

definition granted :: "euint32 list \<Rightarrow> msg \<Rightarrow> FHEAMM \<Rightarrow> (handle \<times> address) set" where
  "granted es m s = (\<Union>e \<in> set es. handles e) \<times> parties m s"

text \<open>
  The stored encrypted values a \<open>submitPosition\<close> call writes: the three sums, the three
  fields of the caller's position and, on a first submission, the two counters.
\<close>

definition regranted :: "msg \<Rightarrow> FHEAMM \<Rightarrow> FHEAMM \<Rightarrow> euint32 list" where
  "regranted m s s' =
     [aggLiquidity s', sumPriceLower s', sumPriceUpper s',
      liquidity (positions s' (sender m)), priceLower (positions s' (sender m)),
      priceUpper (positions s' (sender m))] @
     (if exists (positions s (sender m)) then [] else [numPositions s', twoTimesNumPositions s'])"

text \<open>
  The sum, in \<open>uint32\<close> arithmetic, of one field of the positions of all identities whose
  position exists.
\<close>

definition total :: "(Position \<Rightarrow> euint32) \<Rightarrow> (address \<Rightarrow> Position) \<Rightarrow> uint32" where
  "total field ps = (\<Sum>a | exists (ps a). dec (field (ps a)))"

text \<open>The three running sums agree with the stored positions.\<close>

definition consistent :: "FHEAMM \<Rightarrow> bool" where
  "consistent s \<longleftrightarrow>
     dec (aggLiquidity s) = total liquidity (positions s) \<and>
     dec (sumPriceLower s) = total priceLower (positions s) \<and>
     dec (sumPriceUpper s) = total priceUpper (positions s)"

text \<open>The state reached from construction by a sequence of transactions.\<close>

definition deployed :: "(byte list \<Rightarrow> bytes32) \<Rightarrow> msg \<Rightarrow> address \<Rightarrow> (msg \<times> call) list \<Rightarrow> FHEAMM" where
  "deployed keccak256 d self txs = run keccak256 (constructor d self) txs"

definition certified3 ::
  "inputProof \<Rightarrow> msg \<Rightarrow> FHEAMM \<Rightarrow> externalEuint32 \<Rightarrow> externalEuint32 \<Rightarrow> externalEuint32 \<Rightarrow> bool" where
  "certified3 prf m s l pl pu \<longleftrightarrow>
     certified prf m s l \<and> certified prf m s pl \<and> certified prf m s pu"


section \<open>A concrete deployment\<close>

text \<open>
  Three identities, a contract address and a stand-in for the hash function, on which
  the properties below are exercised. The client of a transaction at time \<open>ts\<close> gives its
  ciphertexts the handles \<open>3 * ts\<close>, \<open>3 * ts + 1\<close> and \<open>3 * ts + 2\<close>.
\<close>

definition keccak0 :: "byte list \<Rightarrow> bytes32" where
  "keccak0 bs = of_nat (length bs)"

definition governor :: address where "governor = 1"
definition alice :: address where "alice = 2"
definition bob :: address where "bob = 3"
definition amm :: address where "amm = 100"

definition deployer :: msg where
  "deployer = \<lparr>sender = governor, timestamp = 1000\<rparr>"

definition genesis :: FHEAMM where
  "genesis = constructor deployer amm"

definition cipher :: "uint256 \<Rightarrow> uint256 \<Rightarrow> uint32 \<Rightarrow> externalEuint32" where
  "cipher ts k v = External (3 * ts + k) v"

definition proofFor :: "address \<Rightarrow> externalEuint32 list \<Rightarrow> inputProof" where
  "proofFor who exts = \<lparr>proofUser = who, proofContract = amm, proofInputs = exts\<rparr>"

definition position_tx :: "address \<Rightarrow> uint256 \<Rightarrow> uint32 \<Rightarrow> uint32 \<Rightarrow> uint32 \<Rightarrow> msg \<times> call" where
  "position_tx who ts l pl pu =
     (\<lparr>sender = who, timestamp = ts\<rparr>,
      SubmitPosition (cipher ts 0 l) (cipher ts 1 pl) (cipher ts 2 pu)
        (proofFor who [cipher ts 0 l, cipher ts 1 pl, cipher ts 2 pu]))"

definition volatility_tx :: "address \<Rightarrow> uint256 \<Rightarrow> uint32 \<Rightarrow> msg \<times> call" where
  "volatility_tx who ts v =
     (\<lparr>sender = who, timestamp = ts\<rparr>,
      SubmitVolatility (cipher ts 0 v) (proofFor who [cipher ts 0 v]))"

definition apply_tx :: "address \<Rightarrow> uint256 \<Rightarrow> uint32 \<Rightarrow> uint32 \<Rightarrow> msg \<times> call" where
  "apply_tx who ts f t = (\<lparr>sender = who, timestamp = ts\<rparr>, ApplyParameters f t)"

text \<open>Two identities, each submitting a liquidity of \<open>2^31\<close>.\<close>

definition overflowing :: "(msg \<times> call) list" where
  "overflowing = [position_tx alice 1 2147483648 100 200, position_tx bob 2 2147483648 100 200]"

text \<open>
  A crowd of distinct identities, each submitting one position, and a pair of submissions
  whose liquidities add up to \<open>2^32\<close>.
\<close>

definition member :: "nat \<Rightarrow> address" where
  "member i = of_nat (1000 + i)"

definition member_tx :: "nat \<Rightarrow> msg \<times> call" where
  "member_tx i = position_tx (member i) (of_nat i) 1 1 1"

definition crowd :: "nat \<Rightarrow> (msg \<times> call) list" where
  "crowd n = map member_tx [0..<n]"

definition wrapping :: "(msg \<times> call) list" where
  "wrapping = [position_tx alice 1 3221225472 100 200, position_tx bob 2 1073741824 100 200]"

text \<open>
  A submission, at time \<open>ts\<close>, of the three ciphertexts with the handles 7, 8 and 9, with
  the input proof that certifies them for the caller; the state after \<open>alice\<close> has made it
  at time 1; and that state after \<open>alice\<close> has passed her grant on the handle 7 on to \<open>bob\<close>.
\<close>

definition resubmitted_tx :: "address \<Rightarrow> uint256 \<Rightarrow> msg \<times> call" where
  "resubmitted_tx who ts =
     (\<lparr>sender = who, timestamp = ts\<rparr>,
      SubmitPosition (External 7 10) (External 8 100) (External 9 200)
        (proofFor who [External 7 10, External 8 100, External 9 200]))"

definition submitted :: FHEAMM where
  "submitted = step keccak0 genesis (resubmitted_tx alice 1)"

definition passed_on :: FHEAMM where
  "passed_on = submitted\<lparr>acl := insert (Input 7, bob) (acl submitted)\<rparr>"

section \<open>Symbolic execution of the operations\<close>

lemma dec_initialized: "dec (if isInitialized a then a else FHE_asEuint32 0) = dec a"
  by (cases a) (simp_all add: FHE_asEuint32_def)

lemma dec_FHE_add [simp]: "dec (FHE_add a b) = dec a + dec b"
  by (simp add: FHE_add_def Let_def dec_initialized)

lemma dec_FHE_sub [simp]: "dec (FHE_sub a b) = dec a - dec b"
  by (simp add: FHE_sub_def Let_def dec_initialized)

lemma decb_FHE_ge [simp]: "decb (FHE_ge a b) = (dec b \<le> dec a)"
  by (simp add: FHE_ge_def Let_def dec_initialized)

lemma dec_FHE_select [simp]: "dec (FHE_select c a b) = (if decb c then dec a else dec b)"
  by (simp add: FHE_select_def)

lemma dec_FHE_asEuint32 [simp]: "dec (FHE_asEuint32 v) = v"
  by (simp add: FHE_asEuint32_def)

lemma dec_imported [simp]: "dec (imported ext) = cleartext ext"
  by (simp add: imported_def)

lemma dec_updated [simp]:
  "dec (updated v x) = (if 50 \<le> cleartext v then dec x + 1 else dec x)"
  by (simp add: updated_def)

lemma FHE_fromExternal_eq:
  "FHE_fromExternal ext prf (sender m) (thisAddress s) =
     (if certified prf m s ext then Inr (imported ext) else Inl InvalidCiphertextProof)"
  by (cases ext) (simp add: FHE_fromExternal_def certified_def imported_def)

lemma FHE_allow_eq: "FHE_allow e account f = f\<lparr>acl := acl f \<union> handles e \<times> {account}\<rparr>"
  by (cases e) (simp_all add: FHE_allow_def)

lemmas fhe_eqs = FHE_allow_eq FHE_allowThis_def

lemma submitVolatility_eq:
  "submitVolatility kec m v prf s =
     (if certified prf m s v then
        Inr (s\<lparr> acl := acl s \<union>
                   granted [updated v (suggestedFeeRatio s), updated v (suggestedTickSpacing s)] m s,
                 suggestedFeeRatio := updated v (suggestedFeeRatio s),
                 suggestedTickSpacing := updated v (suggestedTickSpacing s),
                 actionHashes := actionHashes s @
                    [actionDigest kec ''SUBMIT_VOLATILITY'' (sender m) (timestamp m)],
                 events := events s @ [VolatilitySubmitted (sender m)] \<rparr>)
      else Inl InvalidCiphertextProof)"
proof (cases "certified prf m s v")
  case False
  then show ?thesis
    by (simp add: submitVolatility_def FHE_fromExternal_eq)
next
  case True
  have acl_eq:
    "acl s \<union> A \<times> {thisAddress s} \<union> B \<times> {thisAddress s} \<union> A \<times> {sender m} \<union>
       B \<times> {sender m} \<union> A \<times> {owner s} \<union> B \<times> {owner s}
     = acl s \<union> (A \<union> B) \<times> parties m s" for A B
    by (auto simp: parties_def)
  show ?thesis
    using True
    by (simp add: submitVolatility_def FHE_fromExternal_eq fhe_eqs Let_def pushAction_def
        emit_def actionDigest_def granted_def acl_eq updated_def [symmetric]
        cong: let_weak_cong prod.case_cong_weak sum.case_cong_weak if_weak_cong)
qed

lemmas exec_simps = certified3_def submitPosition_def FHE_fromExternal_eq fhe_eqs Let_def
  pushAction_def emit_def actionDigest_def

lemma closed_form:
  assumes "map_sum id acl r = Inr A"
    and "\<And>X. map_sum id (\<lambda>s'. s'\<lparr>acl := X\<rparr>) r = Inr (F X)"
  shows "r = Inr (F A)"
proof (cases r)
  case (Inl e)
  with assms(1) show ?thesis by simp
next
  case (Inr s')
  with assms(1) have "acl s' = A" by simp
  moreover from Inr assms(2) [of A] have "s'\<lparr>acl := A\<rparr> = F A" by simp
  ultimately have "s' = F A" by (metis fhevm.surjective fhevm.update_convs(1))
  with Inr show ?thesis by simp
qed

lemma Times_insert2: "A \<times> insert a (insert b B) = A \<times> {a} \<union> A \<times> insert b B"
  by auto

lemmas acl_simps = granted_def parties_def Sigma_Un_distrib1 Times_insert2 Un_ac

lemma submitPosition_rejected:
  "\<not> certified3 prf m s l pl pu \<Longrightarrow>
     submitPosition kec m l pl pu prf s = Inl InvalidCiphertextProof"
  by (auto simp add: certified3_def submitPosition_def FHE_fromExternal_eq
        cong: let_weak_cong prod.case_cong_weak sum.case_cong_weak if_weak_cong)

lemma submitPosition_first_acl:
  assumes "certified3 prf m s l pl pu" and "\<not> exists (positions s (sender m))"
  shows "map_sum id acl (submitPosition kec m l pl pu prf s) =
           Inr (acl s \<union> granted
                  [FHE_add (aggLiquidity s) (imported l), FHE_add (sumPriceLower s) (imported pl),
                   FHE_add (sumPriceUpper s) (imported pu),
                   imported l, imported pl, imported pu,
                   FHE_add (numPositions s) (FHE_asEuint32 1),
                   FHE_add (twoTimesNumPositions s) (FHE_asEuint32 2)] m s)"
  using assms
  apply (simp add: exec_simps
        cong: let_weak_cong prod.case_cong_weak sum.case_cong_weak if_weak_cong)
  apply (simp add: acl_simps)
  done

lemma submitPosition_first_fields:
  assumes "certified3 prf m s l pl pu" and "\<not> exists (positions s (sender m))"
  shows "map_sum id (\<lambda>s'. s'\<lparr>acl := X\<rparr>) (submitPosition kec m l pl pu prf s) =
     Inr (s\<lparr> acl := X,
              positions := (positions s)(sender m :=
                 \<lparr> liquidity = imported l, priceLower = imported pl, priceUpper = imported pu,
                    exists = True \<rparr>),
              numPositions := FHE_add (numPositions s) (FHE_asEuint32 1),
              twoTimesNumPositions := FHE_add (twoTimesNumPositions s) (FHE_asEuint32 2),
              aggLiquidity := FHE_add (aggLiquidity s) (imported l),
              sumPriceLower := FHE_add (sumPriceLower s) (imported pl),
              sumPriceUpper := FHE_add (sumPriceUpper s) (imported pu),
              actionHashes := actionHashes s @
                 [actionDigest kec ''SUBMIT_POSITION'' (sender m) (timestamp m)],
              events := events s @ [PositionSubmitted (sender m)] \<rparr>)"
  using assms
  by (simp add: exec_simps
        cong: let_weak_cong prod.case_cong_weak sum.case_cong_weak if_weak_cong)

lemma submitPosition_first:
  assumes "certified3 prf m s l pl pu" and "\<not> exists (positions s (sender m))"
  shows "submitPosition kec m l pl pu prf s =
     Inr (s\<lparr> acl := acl s \<union> granted
                  [FHE_add (aggLiquidity s) (imported l), FHE_add (sumPriceLower s) (imported pl),
                   FHE_add (sumPriceUpper s) (imported pu),
                   imported l, imported pl, imported pu,
                   FHE_add (numPositions s) (FHE_asEuint32 1),
                   FHE_add (twoTimesNumPositions s) (FHE_asEuint32 2)] m s,
              positions := (positions s)(sender m :=
                 \<lparr> liquidity = imported l, priceLower = imported pl, priceUpper = imported pu,
                    exists = True \<rparr>),
              numPositions := FHE_add (numPositions s) (FHE_asEuint32 1),
              twoTimesNumPositions := FHE_add (twoTimesNumPositions s) (FHE_asEuint32 2),
              aggLiquidity := FHE_add (aggLiquidity s) (imported l),
              sumPriceLower := FHE_add (sumPriceLower s) (imported pl),
              sumPriceUpper := FHE_add (sumPriceUpper s) (imported pu),
              actionHashes := actionHashes s @
                 [actionDigest kec ''SUBMIT_POSITION'' (sender m) (timestamp m)],
              events := events s @ [PositionSubmitted (sender m)] \<rparr>)"
  by (rule closed_form [OF submitPosition_first_acl [OF assms]
        submitPosition_first_fields [OF assms]])

lemma submitPosition_replace_acl:
  assumes "certified3 prf m s l pl pu" and "exists (positions s (sender m))"
  shows "map_sum id acl (submitPosition kec m l pl pu prf s) =
           Inr (acl s \<union> granted
                  [FHE_add (FHE_sub (aggLiquidity s) (liquidity (positions s (sender m))))
                     (imported l),
                   FHE_add (FHE_sub (sumPriceLower s) (priceLower (positions s (sender m))))
                     (imported pl),
                   FHE_add (FHE_sub (sumPriceUpper s) (priceUpper (positions s (sender m))))
                     (imported pu),
                   imported l, imported pl, imported pu] m s)"
  using assms
  apply (simp add: exec_simps
        cong: let_weak_cong prod.case_cong_weak sum.case_cong_weak if_weak_cong)
  apply (simp add: acl_simps)
  done

lemma submitPosition_replace_fields:
  assumes "certified3 prf m s l pl pu" and "exists (positions s (sender m))"
  shows "map_sum id (\<lambda>s'. s'\<lparr>acl := X\<rparr>) (submitPosition kec m l pl pu prf s) =
     Inr (s\<lparr> acl := X,
              positions := (positions s)(sender m :=
                 \<lparr> liquidity = imported l, priceLower = imported pl, priceUpper = imported pu,
                    exists = True \<rparr>),
              aggLiquidity :=
                 FHE_add (FHE_sub (aggLiquidity s) (liquidity (positions s (sender m))))
                   (imported l),
              sumPriceLower :=
                 FHE_add (FHE_sub (sumPriceLower s) (priceLower (positions s (sender m))))
                   (imported pl),
              sumPriceUpper :=
                 FHE_add (FHE_sub (sumPriceUpper s) (priceUpper (positions s (sender m))))
                   (imported pu),
              actionHashes := actionHashes s @
                 [actionDigest kec ''SUBMIT_POSITION'' (sender m) (timestamp m)],
              events := events s @ [PositionSubmitted (sender m)] \<rparr>)"
  using assms
  by (simp add: exec_simps
        cong: let_weak_cong prod.case_cong_weak sum.case_cong_weak if_weak_cong)

lemma submitPosition_replace:
  assumes "certified3 prf m s l pl pu" and "exists (positions s (sender m))"
  shows "submitPosition kec m l pl pu prf s =
     Inr (s\<lparr> acl := acl s \<union> granted
                  [FHE_add (FHE_sub (aggLiquidity s) (liquidity (positions s (sender m))))
                     (imported l),
                   FHE_add (FHE_sub (sumPriceLower s) (priceLower (positions s (sender m))))
                     (imported pl),
                   FHE_add (FHE_sub (sumPriceUpper s) (priceUpper (positions s (sender m))))
                     (imported pu),
                   imported l, imported pl, imported pu] m s,
              positions := (positions s)(sender m :=
                 \<lparr> liquidity = imported l, priceLower = imported pl, priceUpper = imported pu,
                    exists = True \<rparr>),
              aggLiquidity :=
                 FHE_add (FHE_sub (aggLiquidity s) (liquidity (positions s (sender m))))
                   (imported l),
              sumPriceLower :=
                 FHE_add (FHE_sub (sumPriceLower s) (priceLower (positions s (sender m))))
                   (imported pl),
              sumPriceUpper :=
                 FHE_add (FHE_sub (sumPriceUpper s) (priceUpper (positions s (sender m))))
                   (imported pu),
              actionHashes := actionHashes s @
                 [actionDigest kec ''SUBMIT_POSITION'' (sender m) (timestamp m)],
              events := events s @ [PositionSubmitted (sender m)] \<rparr>)"
  by (rule closed_form [OF submitPosition_replace_acl [OF assms]
        submitPosition_replace_fields [OF assms]])

lemma applyParameters_eq:
  "applyParameters kec m f t s =
     (if owner s \<noteq> sender m then Inl (Unauthorized (sender m))
      else Inr (s\<lparr> appliedFeeRatio := f, appliedTickSpacing := t,
                    actionHashes := actionHashes s @
                      [actionDigest kec ''APPLY_PARAMETERS'' (sender m) (timestamp m)],
                    events := events s @ [ParametersApplied f t] \<rparr>))"
  by (simp add: applyParameters_def pushAction_def emit_def actionDigest_def Let_def)

lemma constructor_eq:
  "constructor m self =
     \<lparr> acl = {(Trivial 0, self)},
       thisAddress = self, owner = sender m,
       positions = (\<lambda>a. \<lparr> liquidity = Uninitialized, priceLower = Uninitialized,
                            priceUpper = Uninitialized, exists = False \<rparr>),
       aggLiquidity = Uninitialized, sumPriceLower = Uninitialized,
       sumPriceUpper = Uninitialized, numPositions = Uninitialized,
       twoTimesNumPositions = Uninitialized,
       suggestedFeeRatio = Enc (Trivial 0) 0, suggestedTickSpacing = Enc (Trivial 0) 0,
       appliedFeeRatio = 0, appliedTickSpacing = 0,
       actionHashes = [], events = [] \<rparr>"
  by (simp add: constructor_def FHE_allow_def FHE_allowThis_def FHE_asEuint32_def Let_def)

lemma step_submitPosition:
  "step kec s (m, SubmitPosition l pl pu prf) =
     (if \<not> certified3 prf m s l pl pu then s
      else if exists (positions s (sender m)) then
        s\<lparr> acl := acl s \<union> granted
                  [FHE_add (FHE_sub (aggLiquidity s) (liquidity (positions s (sender m))))
                     (imported l),
                   FHE_add (FHE_sub (sumPriceLower s) (priceLower (positions s (sender m))))
                     (imported pl),
                   FHE_add (FHE_sub (sumPriceUpper s) (priceUpper (positions s (sender m))))
                     (imported pu),
                   imported l, imported pl, imported pu] m s,
              positions := (positions s)(sender m :=
                 \<lparr> liquidity = imported l, priceLower = imported pl, priceUpper = imported pu,
                    exists = True \<rparr>),
              aggLiquidity :=
                 FHE_add (FHE_sub (aggLiquidity s) (liquidity (positions s (sender m))))
                   (imported l),
              sumPriceLower :=
                 FHE_add (FHE_sub (sumPriceLower s) (priceLower (positions s (sender m))))
                   (imported pl),
              sumPriceUpper :=
                 FHE_add (FHE_sub (sumPriceUpper s) (priceUpper (positions s (sender m))))
                   (imported pu),
              actionHashes := actionHashes s @
                 [actionDigest kec ''SUBMIT_POSITION'' (sender m) (timestamp m)],
              events := events s @ [PositionSubmitted (sender m)] \<rparr>
      else
        s\<lparr> acl := acl s \<union> granted
                  [FHE_add (aggLiquidity s) (imported l), FHE_add (sumPriceLower s) (imported pl),
                   FHE_add (sumPriceUpper s) (imported pu),
                   imported l, imported pl, imported pu,
                   FHE_add (numPositions s) (FHE_asEuint32 1),
                   FHE_add (twoTimesNumPositions s) (FHE_asEuint32 2)] m s,
              positions := (positions s)(sender m :=
                 \<lparr> liquidity = imported l, priceLower = imported pl, priceUpper = imported pu,
                    exists = True \<rparr>),
              numPositions := FHE_add (numPositions s) (FHE_asEuint32 1),
              twoTimesNumPositions := FHE_add (twoTimesNumPositions s) (FHE_asEuint32 2),
              aggLiquidity := FHE_add (aggLiquidity s) (imported l),
              sumPriceLower := FHE_add (sumPriceLower s) (imported pl),
              sumPriceUpper := FHE_add (sumPriceUpper s) (imported pu),
              actionHashes := actionHashes s @
                 [actionDigest kec ''SUBMIT_POSITION'' (sender m) (timestamp m)],
              events := events s @ [PositionSubmitted (sender m)] \<rparr>)"
  by (simp add: step_def submitPosition_rejected submitPosition_replace submitPosition_first)

lemma step_submitVolatility:
  "step kec s (m, SubmitVolatility v prf) =
     (if certified prf m s v then
        s\<lparr> acl := acl s \<union>
                   granted [updated v (suggestedFeeRatio s), updated v (suggestedTickSpacing s)] m s,
                 suggestedFeeRatio := updated v (suggestedFeeRatio s),
                 suggestedTickSpacing := updated v (suggestedTickSpacing s),
                 actionHashes := actionHashes s @
                    [actionDigest kec ''SUBMIT_VOLATILITY'' (sender m) (timestamp m)],
                 events := events s @ [VolatilitySubmitted (sender m)] \<rparr>
      else s)"
  by (simp add: step_def submitVolatility_eq)

lemma step_applyParameters:
  "step kec s (m, ApplyParameters f t) =
     (if owner s \<noteq> sender m then s
      else s\<lparr> appliedFeeRatio := f, appliedTickSpacing := t,
                    actionHashes := actionHashes s @
                      [actionDigest kec ''APPLY_PARAMETERS'' (sender m) (timestamp m)],
                    events := events s @ [ParametersApplied f t] \<rparr>)"
  by (simp add: step_def applyParameters_eq)

lemmas step_simps = step_submitPosition step_submitVolatility step_applyParameters

lemma run_Nil [simp]: "run kec s [] = s"
  by (simp add: run_def)

lemma run_Cons [simp]: "run kec s (tx # txs) = run kec (step kec s tx) txs"
  by (simp add: run_def)

lemma run_snoc [simp]: "run kec s (txs @ [tx]) = step kec (run kec s txs) tx"
  by (simp add: run_def)

lemma step_thisAddress [simp]: "thisAddress (step kec s tx) = thisAddress s"
  by (cases tx; cases "snd tx") (auto simp add: step_simps)

lemma step_owner [simp]: "owner (step kec s tx) = owner s"
  by (cases tx; cases "snd tx") (auto simp add: step_simps)

lemma run_thisAddress [simp]: "thisAddress (run kec s txs) = thisAddress s"
  by (induction txs arbitrary: s) simp_all

lemma run_owner [simp]: "owner (run kec s txs) = owner s"
  by (induction txs arbitrary: s) simp_all

lemma genesis_eq:
  "genesis =
     \<lparr> acl = {(Trivial 0, amm)},
       thisAddress = amm, owner = governor,
       positions = (\<lambda>a. \<lparr> liquidity = Uninitialized, priceLower = Uninitialized,
                            priceUpper = Uninitialized, exists = False \<rparr>),
       aggLiquidity = Uninitialized, sumPriceLower = Uninitialized,
       sumPriceUpper = Uninitialized, numPositions = Uninitialized,
       twoTimesNumPositions = Uninitialized,
       suggestedFeeRatio = Enc (Trivial 0) 0, suggestedTickSpacing = Enc (Trivial 0) 0,
       appliedFeeRatio = 0, appliedTickSpacing = 0,
       actionHashes = [], events = [] \<rparr>"
  by (simp add: genesis_def deployer_def constructor_eq)

lemma certified_proofFor:
  "thisAddress s = amm \<Longrightarrow>
     certified (proofFor who exts) \<lparr>sender = who, timestamp = ts\<rparr> s ext \<longleftrightarrow> ext \<in> set exts"
  by (auto simp add: certified_def proofFor_def)

lemma cleartext_cipher [simp]: "cleartext (cipher ts k v) = v"
  by (simp add: cipher_def)

lemma submitPosition_Inr:
  assumes "submitPosition kec m l pl pu prf s = Inr s'"
  shows "certified3 prf m s l pl pu \<and> s' = step kec s (m, SubmitPosition l pl pu prf)"
  using assms submitPosition_rejected [of "prf" m s l pl pu kec] by (auto simp add: step_def)

lemma submitVolatility_Inr:
  assumes "submitVolatility kec m v prf s = Inr s'"
  shows "certified prf m s v \<and> s' = step kec s (m, SubmitVolatility v prf)"
  using assms by (auto simp add: step_def submitVolatility_eq split: if_splits)

lemma step_exists: "exists (positions s x) \<Longrightarrow> exists (positions (step kec s tx) x)"
  by (cases tx; cases "snd tx") (auto simp add: step_simps)

lemma run_exists: "exists (positions s x) \<Longrightarrow> exists (positions (run kec s txs) x)"
  by (induction txs arbitrary: s) (simp_all add: step_exists)

lemma submitPosition_accepted:
  "certified3 prf m s l pl pu \<Longrightarrow>
     submitPosition kec m l pl pu prf s = Inr (step kec s (m, SubmitPosition l pl pu prf))"
  by (cases "exists (positions s (sender m))")
    (simp_all add: step_def submitPosition_first submitPosition_replace)

lemma submitVolatility_accepted:
  "certified prf m s v \<Longrightarrow>
     submitVolatility kec m v prf s = Inr (step kec s (m, SubmitVolatility v prf))"
  by (simp add: step_def submitVolatility_eq)

lemma certified3_proofFor:
  "thisAddress s = amm \<Longrightarrow>
     certified3 (proofFor who [l, pl, pu]) \<lparr>sender = who, timestamp = ts\<rparr> s l pl pu"
  by (simp add: certified3_def certified_proofFor)

lemma exec_position_tx:
  "thisAddress s = amm \<Longrightarrow>
     exec kec (position_tx who ts l pl pu) s = Inr (step kec s (position_tx who ts l pl pu))"
  by (simp add: position_tx_def submitPosition_accepted certified3_proofFor)

lemma exec_volatility_tx:
  "thisAddress s = amm \<Longrightarrow>
     exec kec (volatility_tx who ts v) s = Inr (step kec s (volatility_tx who ts v))"
  by (simp add: volatility_tx_def submitVolatility_accepted certified_proofFor)

lemma step_position_tx:
  "thisAddress s = amm \<Longrightarrow>
     step kec s (position_tx who ts l pl pu) =
       step kec s (\<lparr>sender = who, timestamp = ts\<rparr>,
         SubmitPosition (cipher ts 0 l) (cipher ts 1 pl) (cipher ts 2 pu)
           (proofFor who [cipher ts 0 l, cipher ts 1 pl, cipher ts 2 pu])) \<and>
     certified3 (proofFor who [cipher ts 0 l, cipher ts 1 pl, cipher ts 2 pu])
       \<lparr>sender = who, timestamp = ts\<rparr> s (cipher ts 0 l) (cipher ts 1 pl) (cipher ts 2 pu)"
  by (simp add: position_tx_def certified3_proofFor)

lemma step_volatility_tx:
  "thisAddress s = amm \<Longrightarrow>
     step kec s (volatility_tx who ts v) =
       step kec s (\<lparr>sender = who, timestamp = ts\<rparr>,
         SubmitVolatility (cipher ts 0 v) (proofFor who [cipher ts 0 v])) \<and>
     certified (proofFor who [cipher ts 0 v]) \<lparr>sender = who, timestamp = ts\<rparr> s (cipher ts 0 v)"
  by (simp add: volatility_tx_def certified_proofFor)

lemma genesis_address [simp]: "thisAddress genesis = amm" "owner genesis = governor"
  by (simp_all add: genesis_eq)

lemma deployed_genesis: "deployed kec deployer amm txs = run kec genesis txs"
  by (simp add: deployed_def genesis_def)

lemma alice_bob [simp]: "alice \<noteq> bob" "bob \<noteq> alice"
  by (simp_all add: alice_def bob_def)

section \<open>Arithmetic modulo \<open>2^32\<close>\<close>

lemma unat_add_mod: "unat (a + b :: uint32) = (unat a + unat b) mod 2 ^ 32"
  by (simp add: unat_word_ariths)

lemma unat_sub_mod: "unat (a - b :: uint32) = (unat a + 2 ^ 32 - unat b) mod 2 ^ 32"
proof (cases "unat b \<le> unat a")
  case True
  then obtain d where d: "unat a = unat b + d"
    by (auto simp add: le_iff_add)
  have "unat a < 2 ^ 32"
    using unsigned_less [of a, where ?'a = nat] by simp
  with d have small: "d < 2 ^ 32"
    by simp
  have "unat (a - b) = d"
    using True d by (simp add: unat_sub_if_size)
  moreover have "(unat a + 2 ^ 32 - unat b) mod 2 ^ 32 = d"
    using d small by simp
  ultimately show ?thesis
    by simp
next
  case False
  then have "unat a + 2 ^ 32 - unat b < 2 ^ 32"
    by simp
  then show ?thesis
    using False by (simp add: unat_sub_if_size word_size)
qed

lemma unat_sub_plus_mod:
  "(unat (a - b :: uint32) + c) mod 4294967296 =
     (unat a + 4294967296 - unat b + c) mod 4294967296"
proof -
  have "(unat (a - b) + c) mod 2 ^ 32 = (unat a + 2 ^ 32 - unat b + c) mod 2 ^ 32"
    by (simp only: unat_sub_mod mod_add_left_eq)
  then show ?thesis
    by simp
qed

lemma unat_inc_mod: "unat (x + 1 :: uint32) = (unat x + 1) mod 2 ^ 32"
  by (simp add: unat_word_ariths)

lemma unat_inc_exact:
  fixes x :: uint32
  assumes "unat x < 2 ^ 32 - 1"
  shows "unat (x + 1) = unat x + 1"
  using assms by (simp add: unat_word_ariths)


section \<open>Runs of the state machine\<close>

lemma certified_step [simp]: "certified ip m (step kec s tx) v = certified ip m s v"
  by (simp add: certified_def)

lemma run_replicate_volatility:
  assumes "certified ip m s v" and "50 \<le> cleartext v"
  shows "dec (suggestedFeeRatio (run kec s (replicate n (m, SubmitVolatility v ip)))) =
           dec (suggestedFeeRatio s) + of_nat n \<and>
         dec (suggestedTickSpacing (run kec s (replicate n (m, SubmitVolatility v ip)))) =
           dec (suggestedTickSpacing s) + of_nat n"
  using assms
proof (induction n arbitrary: s)
  case 0
  show ?case by simp
next
  case (Suc n)
  have "certified ip m (step kec s (m, SubmitVolatility v ip)) v"
    using Suc.prems by simp
  from Suc.IH [OF this Suc.prems(2)] Suc.prems show ?case
    by (simp add: step_submitVolatility)
qed

lemma run_replicate_Suc:
  "run kec s (replicate (Suc n) tx) = step kec (run kec s (replicate n tx)) tx"
  by (metis replicate_Suc replicate_append_same run_snoc)


text \<open>
  Handles are reused: an import of the same ciphertext returns the same encrypted value,
  whoever calls and whenever; and the two suggestion fields, which start from the same
  trivial encryption and go through the same operators, hold the same handle throughout.
\<close>

lemma import_replay:
  assumes "FHE_fromExternal ext ip user c = Inr e" and "FHE_fromExternal ext ip' user' c' = Inr e'"
  shows "e = e'"
  using assms by (cases ext) (auto simp add: FHE_fromExternal_def split: if_splits)

lemma step_suggestions_shared:
  "suggestedFeeRatio s = suggestedTickSpacing s \<Longrightarrow>
     suggestedFeeRatio (step kec s tx) = suggestedTickSpacing (step kec s tx)"
  by (cases tx; cases "snd tx") (auto simp add: step_simps)

lemma run_suggestions_shared:
  "suggestedFeeRatio s = suggestedTickSpacing s \<Longrightarrow>
     suggestedFeeRatio (run kec s txs) = suggestedTickSpacing (run kec s txs)"
  by (induction txs arbitrary: s) (simp_all add: step_suggestions_shared)

lemma deployed_suggestions_shared:
  "handleOf (suggestedFeeRatio (deployed kec d self txs)) =
     handleOf (suggestedTickSpacing (deployed kec d self txs))"
  by (simp add: deployed_def run_suggestions_shared constructor_eq)

lemma coDerived_word:
  "coDerived s \<longleftrightarrow> dec (twoTimesNumPositions s) = 2 * dec (numPositions s)"
  by (simp add: coDerived_def word_unat_eq_iff unat_word_ariths)

lemma step_coDerived: "coDerived s \<Longrightarrow> coDerived (step kec s tx)"
  by (cases tx; cases "snd tx") (auto simp add: coDerived_word step_simps)

lemma run_coDerived: "coDerived s \<Longrightarrow> coDerived (run kec s txs)"
  by (induction txs arbitrary: s) (simp_all add: step_coDerived)

lemma constructor_coDerived: "coDerived (constructor d self)"
  by (simp add: coDerived_word constructor_eq)

lemma address_of_nat_eq:
  assumes "i < 2 ^ 160" and "j < 2 ^ 160"
  shows "(of_nat i :: address) = of_nat j \<longleftrightarrow> i = j"
  using assms by (simp add: word_of_nat_eq_iff take_bit_nat_eq_self)

lemma crowd_Suc: "crowd (Suc n) = crowd n @ [member_tx n]"
  by (simp add: crowd_def)

lemma member_eq:
  assumes "i \<le> 2 ^ 32" and "j \<le> 2 ^ 32"
  shows "member i = member j \<longleftrightarrow> i = j"
proof -
  have "(1000 + i :: nat) < 2 ^ 160" "(1000 + j :: nat) < 2 ^ 160"
    using assms by simp_all
  from address_of_nat_eq [OF this] show ?thesis
    by (simp only: member_def) simp
qed

lemma sender_member_tx [simp]: "sender (fst (member_tx n)) = member n"
  by (simp add: member_tx_def position_tx_def)

lemma crowd_state:
  "n \<le> 2 ^ 32 \<Longrightarrow>
     {a. exists (positions (run kec genesis (crowd n)) a)} = member ` {..<n} \<and>
     dec (numPositions (run kec genesis (crowd n))) = of_nat n"
proof (induction n)
  case 0
  show ?case
    by (simp add: crowd_def genesis_eq)
next
  case (Suc n)
  let ?S = "run kec genesis (crowd n)"
  from Suc have IH: "{a. exists (positions ?S a)} = member ` {..<n}"
    "dec (numPositions ?S) = of_nat n"
    by simp_all
  have this_amm: "thisAddress ?S = amm"
    by simp
  have new: "\<not> exists (positions ?S (member n))"
  proof
    assume "exists (positions ?S (member n))"
    with IH(1) have "member n \<in> member ` {..<n}"
      by blast
    then obtain i where i: "i < n" "member n = member i"
      by blast
    with Suc.prems member_eq [of n i] show False
      by simp
  qed
  have holders: "{a. exists (positions (step kec ?S (member_tx n)) a)} =
      insert (member n) {a. exists (positions ?S a)}"
    using new this_amm
    by (auto simp add: member_tx_def step_position_tx step_submitPosition)
  have count: "dec (numPositions (step kec ?S (member_tx n))) = dec (numPositions ?S) + 1"
    using new this_amm
    by (simp add: member_tx_def step_position_tx step_submitPosition)
  have "insert (member n) (member ` {..<n}) = member ` {..<Suc n}"
    by (simp add: lessThan_Suc)
  with holders count IH show ?case
    by (simp add: crowd_Suc)
qed

lemma crowd_new:
  assumes "n < 2 ^ 32"
  shows "\<not> exists (positions (run kec genesis (crowd n)) (member n))"
proof
  assume "exists (positions (run kec genesis (crowd n)) (member n))"
  with crowd_state [of n kec] assms have "member n \<in> member ` {..<n}"
    by auto
  then obtain i where i: "i < n" "member n = member i"
    by blast
  with assms member_eq [of n i] show False
    by simp
qed

lemma crowd_counters:
  "unat (dec (numPositions (run kec genesis (crowd 2147483648)))) = 2147483648 \<and>
   unat (dec (twoTimesNumPositions (run kec genesis (crowd 2147483648)))) = 0"
proof -
  let ?S = "run kec genesis (crowd 2147483648)"
  from crowd_state [of 2147483648 kec] have n: "dec (numPositions ?S) = 2147483648"
    by simp
  have "coDerived ?S"
    by (simp add: run_coDerived genesis_def constructor_coDerived)
  with n have "dec (twoTimesNumPositions ?S) = 2 * 2147483648"
    by (simp add: coDerived_word)
  with n show ?thesis
    by simp
qed

lemma crowd_full:
  "unat (dec (numPositions (run kec genesis (crowd 4294967295)))) = 4294967295 \<and>
   unat (dec (numPositions
      (step kec (run kec genesis (crowd 4294967295)) (member_tx 4294967295)))) = 0"
proof -
  from crowd_state [of 4294967295 kec]
  have before: "dec (numPositions (run kec genesis (crowd 4294967295))) = 4294967295"
    by simp
  from crowd_state [of "Suc 4294967295" kec]
  have "dec (numPositions (run kec genesis (crowd (Suc 4294967295)))) = 0"
    by simp
  then have "dec (numPositions
      (step kec (run kec genesis (crowd 4294967295)) (member_tx 4294967295))) = 0"
    by (simp only: crowd_Suc run_snoc)
  with before show ?thesis
    by simp
qed

lemma wrapping_state:
  "unat (dec (aggLiquidity (run keccak0 genesis wrapping))) = 0 \<and>
   unat (dec (liquidity (positions (run keccak0 genesis wrapping) alice))) = 3221225472 \<and>
   exists (positions (run keccak0 genesis wrapping) alice) \<and>
   thisAddress (run keccak0 genesis wrapping) = amm"
  by (simp add: wrapping_def step_position_tx step_submitPosition genesis_eq)

lemma wrapping_replace:
  "unat (dec (aggLiquidity (step keccak0 (run keccak0 genesis wrapping)
      (position_tx alice 3 5 100 200)))) = 1073741829"
  by (simp add: wrapping_def step_position_tx step_submitPosition genesis_eq)

lemma submitPosition_total:
  "submitPosition kec m l pl pu ip s =
     (if certified3 ip m s l pl pu then Inr (step kec s (m, SubmitPosition l pl pu ip))
      else Inl InvalidCiphertextProof)"
  by (simp add: submitPosition_accepted submitPosition_rejected)

section \<open>Threshold update rule\<close>

text \<open>
  C4, as amended: a successful \<open>submitVolatility\<close> with volatility \<open>v\<close> adds 1 modulo
  \<open>2^32\<close> to \<open>suggestedFeeRatio\<close> and to \<open>suggestedTickSpacing\<close> when \<open>v \<ge> 50\<close> (which is
  exactly 1 more as long as the field is below \<open>2^32 - 1\<close>), and leaves the cleartext of
  both unchanged when \<open>v < 50\<close>; positions, aggregates, counters and applied parameters
  are not touched.
\<close>

theorem submitVolatility_threshold_mod:
  assumes "submitVolatility kec m v prf s = Inr s'"
  shows "(50 \<le> cleartext v \<longrightarrow>
            unat (dec (suggestedFeeRatio s')) =
              (unat (dec (suggestedFeeRatio s)) + 1) mod 2 ^ 32 \<and>
            unat (dec (suggestedTickSpacing s')) =
              (unat (dec (suggestedTickSpacing s)) + 1) mod 2 ^ 32) \<and>
         (50 \<le> cleartext v \<and> unat (dec (suggestedFeeRatio s)) < 2 ^ 32 - 1 \<longrightarrow>
            unat (dec (suggestedFeeRatio s')) = unat (dec (suggestedFeeRatio s)) + 1) \<and>
         (50 \<le> cleartext v \<and> unat (dec (suggestedTickSpacing s)) < 2 ^ 32 - 1 \<longrightarrow>
            unat (dec (suggestedTickSpacing s')) = unat (dec (suggestedTickSpacing s)) + 1) \<and>
         (cleartext v < 50 \<longrightarrow>
            dec (suggestedFeeRatio s') = dec (suggestedFeeRatio s) \<and>
            dec (suggestedTickSpacing s') = dec (suggestedTickSpacing s)) \<and>
         positions s' = positions s \<and> aggLiquidity s' = aggLiquidity s \<and>
         sumPriceLower s' = sumPriceLower s \<and> sumPriceUpper s' = sumPriceUpper s \<and>
         numPositions s' = numPositions s \<and>
         twoTimesNumPositions s' = twoTimesNumPositions s \<and>
         appliedFeeRatio s' = appliedFeeRatio s \<and>
         appliedTickSpacing s' = appliedTickSpacing s"
proof -
  from submitVolatility_Inr [OF assms]
  have ok: "certified prf m s v" and s': "s' = step kec s (m, SubmitVolatility v prf)"
    by simp_all
  have high: "dec (suggestedFeeRatio s') = dec (suggestedFeeRatio s) + 1 \<and>
      dec (suggestedTickSpacing s') = dec (suggestedTickSpacing s) + 1"
    if "50 \<le> cleartext v"
    using ok that by (simp add: s' step_submitVolatility)
  have low: "dec (suggestedFeeRatio s') = dec (suggestedFeeRatio s) \<and>
      dec (suggestedTickSpacing s') = dec (suggestedTickSpacing s)"
    if "cleartext v < 50"
    using ok that by (simp add: s' step_submitVolatility not_le [symmetric])
  have rest: "positions s' = positions s \<and> aggLiquidity s' = aggLiquidity s \<and>
      sumPriceLower s' = sumPriceLower s \<and> sumPriceUpper s' = sumPriceUpper s \<and>
      numPositions s' = numPositions s \<and>
      twoTimesNumPositions s' = twoTimesNumPositions s \<and>
      appliedFeeRatio s' = appliedFeeRatio s \<and>
      appliedTickSpacing s' = appliedTickSpacing s"
    using ok by (simp add: s' step_submitVolatility)
  have wrap: "unat (dec (suggestedFeeRatio s')) =
        (unat (dec (suggestedFeeRatio s)) + 1) mod 2 ^ 32 \<and>
      unat (dec (suggestedTickSpacing s')) =
        (unat (dec (suggestedTickSpacing s)) + 1) mod 2 ^ 32"
    if "50 \<le> cleartext v"
    using high [OF that] by (simp only: unat_inc_mod)
  have fee: "unat (dec (suggestedFeeRatio s')) = unat (dec (suggestedFeeRatio s)) + 1"
    if "50 \<le> cleartext v" and "unat (dec (suggestedFeeRatio s)) < 2 ^ 32 - 1"
    using high [OF that(1)] unat_inc_exact [OF that(2)] by simp
  have tick: "unat (dec (suggestedTickSpacing s')) = unat (dec (suggestedTickSpacing s)) + 1"
    if "50 \<le> cleartext v" and "unat (dec (suggestedTickSpacing s)) < 2 ^ 32 - 1"
    using high [OF that(1)] unat_inc_exact [OF that(2)] by simp
  show ?thesis
    using wrap fee tick low rest by blast
qed

theorem submitVolatility_threshold_mod_witness:
  "exec keccak0 (volatility_tx alice 7 60) genesis =
     Inr (step keccak0 genesis (volatility_tx alice 7 60)) \<and>
   50 \<le> cleartext (cipher 7 0 60) \<and>
   unat (dec (suggestedFeeRatio genesis)) < 2 ^ 32 - 1 \<and>
   unat (dec (suggestedTickSpacing genesis)) < 2 ^ 32 - 1 \<and>
   unat (dec (suggestedFeeRatio (step keccak0 genesis (volatility_tx alice 7 60)))) = 1 \<and>
   unat (dec (suggestedTickSpacing (step keccak0 genesis (volatility_tx alice 7 60)))) = 1 \<and>
   exec keccak0 (volatility_tx alice 8 30) genesis =
     Inr (step keccak0 genesis (volatility_tx alice 8 30)) \<and>
   cleartext (cipher 8 0 30) < 50 \<and>
   dec (suggestedFeeRatio (step keccak0 genesis (volatility_tx alice 8 30))) = 0 \<and>
   dec (suggestedTickSpacing (step keccak0 genesis (volatility_tx alice 8 30))) = 0"
proof -
  let ?hi = "volatility_tx alice 7 60" and ?lo = "volatility_tx alice 8 30"
  have hi: "submitVolatility keccak0 \<lparr>sender = alice, timestamp = 7\<rparr> (cipher 7 0 60)
      (proofFor alice [cipher 7 0 60]) genesis = Inr (step keccak0 genesis ?hi)"
    using exec_volatility_tx [of genesis keccak0 alice 7 60] by (simp add: volatility_tx_def)
  have lo: "submitVolatility keccak0 \<lparr>sender = alice, timestamp = 8\<rparr> (cipher 8 0 30)
      (proofFor alice [cipher 8 0 30]) genesis = Inr (step keccak0 genesis ?lo)"
    using exec_volatility_tx [of genesis keccak0 alice 8 30] by (simp add: volatility_tx_def)
  have zero: "dec (suggestedFeeRatio genesis) = 0" "dec (suggestedTickSpacing genesis) = 0"
    by (simp_all add: genesis_eq)
  have runs: "exec keccak0 ?hi genesis = Inr (step keccak0 genesis ?hi)"
    "exec keccak0 ?lo genesis = Inr (step keccak0 genesis ?lo)"
    by (simp_all add: exec_volatility_tx)
  from submitVolatility_threshold_mod [OF hi] submitVolatility_threshold_mod [OF lo]
  show ?thesis
    using runs by (simp add: zero)
qed

text \<open>
  C4 as stated, with the increase read in the integers, fails: after \<open>2^32 - 1\<close>
  qualifying submissions from construction both fields decrypt to \<open>2^32 - 1\<close>; one more
  qualifying submission succeeds and both fields decrypt to 0, not to \<open>2^32\<close>.
\<close>

theorem submitVolatility_increment_wraps:
  "exec keccak0 (volatility_tx alice 7 60)
      (deployed keccak0 deployer amm (replicate 4294967295 (volatility_tx alice 7 60))) =
     Inr (step keccak0
       (deployed keccak0 deployer amm (replicate 4294967295 (volatility_tx alice 7 60)))
       (volatility_tx alice 7 60)) \<and>
   50 \<le> cleartext (cipher 7 0 60) \<and>
   unat (dec (suggestedFeeRatio
      (deployed keccak0 deployer amm (replicate 4294967295 (volatility_tx alice 7 60))))) =
     4294967295 \<and>
   unat (dec (suggestedFeeRatio (step keccak0
       (deployed keccak0 deployer amm (replicate 4294967295 (volatility_tx alice 7 60)))
       (volatility_tx alice 7 60)))) = 0 \<and>
   unat (dec (suggestedFeeRatio (step keccak0
       (deployed keccak0 deployer amm (replicate 4294967295 (volatility_tx alice 7 60)))
       (volatility_tx alice 7 60)))) \<noteq>
     unat (dec (suggestedFeeRatio
       (deployed keccak0 deployer amm (replicate 4294967295 (volatility_tx alice 7 60))))) + 1 \<and>
   unat (dec (suggestedTickSpacing (step keccak0
       (deployed keccak0 deployer amm (replicate 4294967295 (volatility_tx alice 7 60)))
       (volatility_tx alice 7 60)))) \<noteq>
     unat (dec (suggestedTickSpacing
       (deployed keccak0 deployer amm (replicate 4294967295 (volatility_tx alice 7 60))))) + 1"
proof -
  let ?tx = "volatility_tx alice 7 60"
  let ?R = "run keccak0 genesis (replicate 4294967295 ?tx)"
  have ok: "certified (proofFor alice [cipher 7 0 60]) \<lparr>sender = alice, timestamp = 7\<rparr> genesis
      (cipher 7 0 60)"
    by (simp add: certified_proofFor)
  have high: "50 \<le> cleartext (cipher 7 0 60)"
    by simp
  have before: "dec (suggestedFeeRatio ?R) = 4294967295"
    "dec (suggestedTickSpacing ?R) = 4294967295"
    using run_replicate_volatility [OF ok high, of keccak0 4294967295]
    by (simp_all add: volatility_tx_def genesis_eq)
  have "dec (suggestedFeeRatio (run keccak0 genesis (replicate (Suc 4294967295) ?tx))) = 0 \<and>
      dec (suggestedTickSpacing (run keccak0 genesis (replicate (Suc 4294967295) ?tx))) = 0"
    using run_replicate_volatility [OF ok high, of keccak0 "Suc 4294967295"]
    by (simp add: volatility_tx_def genesis_eq)
  then have after: "dec (suggestedFeeRatio (step keccak0 ?R ?tx)) = 0"
    "dec (suggestedTickSpacing (step keccak0 ?R ?tx)) = 0"
    by (simp_all only: run_replicate_Suc)
  have run: "exec keccak0 ?tx ?R = Inr (step keccak0 ?R ?tx)"
    by (simp add: exec_volatility_tx)
  show ?thesis
    using run high by (simp add: deployed_genesis before after)
qed

section \<open>Audit log lookup\<close>

text \<open>
  C9: \<open>getActionAt(index)\<close> fails with \<open>IndexOutOfRange\<close> for every index at or beyond
  \<open>getActionsLength()\<close>, and below it returns the digest stored at that position. The
  query is a function of the state that returns a value only, so it cannot change the
  state. The length of a storage array fits a \<open>uint256\<close>.
\<close>

theorem getActionAt_lookup:
  assumes "length (actionHashes s) < 2 ^ 256"
  shows "(getActionsLength s \<le> index \<longrightarrow> getActionAt s index = Inl IndexOutOfRange) \<and>
         (index < getActionsLength s \<longrightarrow>
            getActionAt s index = Inr (actionHashes s ! unat index))"
proof -
  have len: "unat (getActionsLength s) = length (actionHashes s)"
    using assms by (simp add: getActionsLength_def unat_of_nat)
  show ?thesis
    by (simp add: getActionAt_def word_le_nat_alt word_less_nat_alt len)
qed

theorem getActionAt_lookup_witness:
  "length (actionHashes (step keccak0 genesis (volatility_tx alice 7 60))) < 2 ^ 256 \<and>
   getActionAt (step keccak0 genesis (volatility_tx alice 7 60)) 1 = Inl IndexOutOfRange \<and>
   getActionAt (step keccak0 genesis (volatility_tx alice 7 60)) 0 =
     Inr (txDigest keccak0 (volatility_tx alice 7 60))"
proof -
  let ?s = "step keccak0 genesis (volatility_tx alice 7 60)"
  have hashes: "actionHashes ?s = [txDigest keccak0 (volatility_tx alice 7 60)]"
    by (simp add: volatility_tx_def step_submitVolatility certified_proofFor genesis_eq
        txDigest_def)
  then have len: "length (actionHashes ?s) < 2 ^ 256"
    by simp
  have n: "getActionsLength ?s = 1"
    by (simp add: getActionsLength_def hashes)
  from getActionAt_lookup [OF len, of 1] getActionAt_lookup [OF len, of 0]
  show ?thesis
    by (simp add: n hashes)
qed

section \<open>Governance gating and isolation\<close>

text \<open>
  C6: called by the owner, \<open>applyParameters\<close> overwrites \<open>appliedFeeRatio\<close> and
  \<open>appliedTickSpacing\<close> with the given clear values, whatever the state, and appends its
  audit entry and event; called by anyone else it fails with \<open>Unauthorized\<close> and the state
  stays as it was. It does not depend on the suggestions: running it on a state with other
  suggestion values gives the same result with those other values carried through.
\<close>

theorem applyParameters_governance:
  "(sender m = owner s \<longrightarrow>
      applyParameters kec m f t s =
        Inr (s\<lparr> appliedFeeRatio := f, appliedTickSpacing := t,
                 actionHashes := actionHashes s @
                   [actionDigest kec ''APPLY_PARAMETERS'' (sender m) (timestamp m)],
                 events := events s @ [ParametersApplied f t] \<rparr>)) \<and>
   (sender m \<noteq> owner s \<longrightarrow>
      applyParameters kec m f t s = Inl (Unauthorized (sender m)) \<and>
      step kec s (m, ApplyParameters f t) = s) \<and>
   applyParameters kec m f t (s\<lparr>suggestedFeeRatio := x, suggestedTickSpacing := y\<rparr>) =
     map_sum id (\<lambda>s'. s'\<lparr>suggestedFeeRatio := x, suggestedTickSpacing := y\<rparr>)
       (applyParameters kec m f t s)"
  by (auto simp add: applyParameters_eq step_applyParameters)

theorem applyParameters_governance_witness:
  "sender (fst (apply_tx governor 9 5 10)) = owner genesis \<and>
   appliedFeeRatio (step keccak0 genesis (apply_tx governor 9 5 10)) = 5 \<and>
   appliedTickSpacing (step keccak0 genesis (apply_tx governor 9 5 10)) = 10 \<and>
   sender (fst (apply_tx alice 9 5 10)) \<noteq> owner genesis \<and>
   applyParameters keccak0 (fst (apply_tx alice 9 5 10)) 5 10 genesis = Inl (Unauthorized alice) \<and>
   step keccak0 genesis (apply_tx alice 9 5 10) = genesis"
proof -
  have gov: "sender (fst (apply_tx governor 9 5 10)) = owner genesis"
    by (simp add: apply_tx_def genesis_eq)
  have other: "sender (fst (apply_tx alice 9 5 10)) \<noteq> owner genesis"
    by (simp add: apply_tx_def genesis_eq alice_def governor_def)
  from applyParameters_governance [of "fst (apply_tx governor 9 5 10)" genesis keccak0 5 10]
    applyParameters_governance [of "fst (apply_tx alice 9 5 10)" genesis keccak0 5 10]
    gov other
  show ?thesis
    by (simp add: apply_tx_def step_def)
qed

section \<open>Counter co-derivation\<close>

lemma step_position_genesis:
  "dec (numPositions (step keccak0 genesis (position_tx alice 1 10 100 200))) = 1 \<and>
   dec (twoTimesNumPositions (step keccak0 genesis (position_tx alice 1 10 100 200))) = 2"
  by (simp add: step_position_tx step_submitPosition genesis_eq)

text \<open>
  C3, as amended: \<open>twoTimesNumPositions\<close> equals \<open>2 * numPositions\<close> modulo \<open>2^32\<close> after
  construction, and the equality modulo \<open>2^32\<close> is preserved by every transaction
  (successful or reverted) of the state machine; hence it holds after every sequence of
  transactions. As long as \<open>numPositions\<close> is below \<open>2^31\<close> the two decrypted values
  satisfy the equality in the integers.
\<close>

theorem counters_coDerived_mod:
  "coDerived (constructor d self) \<and>
   (coDerived s \<longrightarrow> coDerived (step kec s tx)) \<and>
   unat (dec (twoTimesNumPositions (run kec (constructor d self) txs))) =
     (2 * unat (dec (numPositions (run kec (constructor d self) txs)))) mod 2 ^ 32 \<and>
   (unat (dec (numPositions (run kec (constructor d self) txs))) < 2 ^ 31 \<longrightarrow>
      unat (dec (twoTimesNumPositions (run kec (constructor d self) txs))) =
        2 * unat (dec (numPositions (run kec (constructor d self) txs))))"
proof -
  have inv: "coDerived (run kec (constructor d self) txs)"
    by (simp add: constructor_coDerived run_coDerived)
  then have modulo: "unat (dec (twoTimesNumPositions (run kec (constructor d self) txs))) =
      (2 * unat (dec (numPositions (run kec (constructor d self) txs)))) mod 2 ^ 32"
    by (simp add: coDerived_def)
  have exact: "unat (dec (twoTimesNumPositions (run kec (constructor d self) txs))) =
      2 * unat (dec (numPositions (run kec (constructor d self) txs)))"
    if "unat (dec (numPositions (run kec (constructor d self) txs))) < 2 ^ 31"
    using modulo that by simp
  show ?thesis
    using constructor_coDerived [of d self] step_coDerived [of s kec tx] modulo exact
    by blast
qed

theorem counters_coDerived_mod_witness:
  "coDerived genesis \<and>
   coDerived (step keccak0 genesis (position_tx alice 1 10 100 200)) \<and>
   unat (dec (numPositions (run keccak0 genesis [position_tx alice 1 10 100 200]))) < 2 ^ 31 \<and>
   unat (dec (numPositions (run keccak0 genesis [position_tx alice 1 10 100 200]))) = 1 \<and>
   unat (dec (twoTimesNumPositions (run keccak0 genesis [position_tx alice 1 10 100 200]))) = 2"
  using counters_coDerived_mod [of deployer amm genesis keccak0
      "position_tx alice 1 10 100 200" "[position_tx alice 1 10 100 200]"]
  by (simp add: genesis_def [symmetric] step_position_genesis)

text \<open>
  C3 as stated, with the product read in the integers, fails: after \<open>2^31\<close> identities have
  each submitted a first position, \<open>numPositions\<close> decrypts to \<open>2^31\<close> and
  \<open>twoTimesNumPositions\<close> decrypts to 0, not to \<open>2^32\<close>.
\<close>

theorem counters_product_wraps:
  "unat (dec (numPositions (deployed keccak0 deployer amm (crowd 2147483648)))) = 2147483648 \<and>
   unat (dec (twoTimesNumPositions (deployed keccak0 deployer amm (crowd 2147483648)))) \<noteq>
     2 * unat (dec (numPositions (deployed keccak0 deployer amm (crowd 2147483648))))"
  using crowd_counters [of keccak0] by (simp add: deployed_genesis)

section \<open>Audit trail\<close>

lemma exec_actionHashes:
  assumes "exec kec tx s = Inr s'"
  shows "actionHashes s' = actionHashes s @ [txDigest kec tx]"
proof (cases tx)
  case (Pair m c)
  show ?thesis
  proof (cases c)
    case (SubmitPosition l pl pu ip)
    with Pair assms have ok: "certified3 ip m s l pl pu"
      using submitPosition_rejected [of ip m s l pl pu kec] by auto
    with Pair SubmitPosition assms have "s' = step kec s tx"
      by (simp add: step_def)
    with ok Pair SubmitPosition show ?thesis
      by (simp add: step_submitPosition txDigest_def)
  next
    case (SubmitVolatility v ip)
    with Pair assms show ?thesis
      by (auto simp add: submitVolatility_eq txDigest_def split: if_splits)
  next
    case (ApplyParameters f t)
    with Pair assms show ?thesis
      by (auto simp add: applyParameters_eq txDigest_def split: if_splits)
  qed
qed

lemma run_actionHashes:
  "actionHashes (run kec s txs) = actionHashes s @ map (txDigest kec) (successes kec s txs)"
proof (induction txs arbitrary: s)
  case Nil
  show ?case by simp
next
  case (Cons tx txs)
  show ?case
  proof (cases "exec kec tx s")
    case (Inl e)
    then show ?thesis
      by (simp add: Cons.IH step_def)
  next
    case (Inr s')
    then show ?thesis
      by (simp add: Cons.IH step_def exec_actionHashes [OF Inr])
  qed
qed

lemma bigEndian_length [simp]: "length (bigEndian n w) = n"
  by (simp add: bigEndian_def)

lemma bigEndian_inj:
  fixes w w' :: "'a::len word"
  assumes len: "LENGTH('a) \<le> 8 * n" and eq: "bigEndian n w = bigEndian n w'"
  shows "w = w'"
proof (rule bit_word_eqI)
  fix k
  assume k: "k < LENGTH('a)"
  let ?i = "k div 8" and ?j = "k mod 8"
  from k len have i: "?i < n"
    by (simp add: less_mult_imp_div_less mult.commute)
  from eq have "map (\<lambda>i. ucast (drop_bit (8 * i) w) :: byte) [0..<n] =
      map (\<lambda>i. ucast (drop_bit (8 * i) w')) [0..<n]"
    by (simp add: bigEndian_def rev_map [symmetric])
  with i have "(ucast (drop_bit (8 * ?i) w) :: byte) = ucast (drop_bit (8 * ?i) w')"
    by (simp add: map_eq_conv)
  then have "bit (ucast (drop_bit (8 * ?i) w) :: byte) ?j =
      bit (ucast (drop_bit (8 * ?i) w') :: byte) ?j"
    by simp
  then show "bit w k = bit w' k"
    by (simp add: bit_ucast_iff bit_drop_bit_eq)
qed

lemma stringBytes_inj: "stringBytes s = stringBytes s' \<Longrightarrow> s = s'"
proof -
  have inj: "inj (\<lambda>c. of_nat (of_char c) :: byte)"
  proof (rule injI)
    fix c d :: char
    assume "(of_nat (of_char c) :: byte) = of_nat (of_char d)"
    then have "unat (of_nat (of_char c) :: byte) = unat (of_nat (of_char d) :: byte)"
      by simp
    then have "(of_char c :: nat) = of_char d"
      by (simp add: unat_of_nat)
    then show "c = d"
      by simp
  qed
  assume "stringBytes s = stringBytes s'"
  then show ?thesis
    using inj by (simp add: stringBytes_def inj_map_eq_map)
qed

lemma encodePacked_length: "length (encodePacked a w t) = length a + 52"
  by (simp add: encodePacked_def stringBytes_def)

lemma encodePacked_inj:
  "encodePacked a w t = encodePacked a' w' t' \<longleftrightarrow> a = a' \<and> w = w' \<and> t = t'"
proof
  assume eq: "encodePacked a w t = encodePacked a' w' t'"
  then have "length (encodePacked a w t) = length (encodePacked a' w' t')"
    by simp
  then have len: "length (stringBytes a) = length (stringBytes a')"
    by (simp add: encodePacked_length stringBytes_def)
  with eq have parts: "stringBytes a = stringBytes a'" "bigEndian 20 w = bigEndian 20 w'"
    "bigEndian 32 t = bigEndian 32 t'"
    by (simp_all add: encodePacked_def)
  from parts(1) have "a = a'" by (rule stringBytes_inj)
  moreover from parts(2) have "w = w'" by (rule bigEndian_inj [rotated]) simp
  moreover from parts(3) have "t = t'" by (rule bigEndian_inj [rotated]) simp
  ultimately show "a = a' \<and> w = w' \<and> t = t'" by simp
qed simp

lemma packed_volatility:
  "encodePacked ''SUBMIT_VOLATILITY'' alice 7 =
     [83, 85, 66, 77, 73, 84, 95, 86, 79, 76, 65, 84, 73, 76, 73, 84, 89,
      0, 0, 0, 0, 0, 0, 0, 0, 0, 0, 0, 0, 0, 0, 0, 0, 0, 0, 0, 2,
      0, 0, 0, 0, 0, 0, 0, 0, 0, 0, 0, 0, 0, 0, 0, 0,
      0, 0, 0, 0, 0, 0, 0, 0, 0, 0, 0, 0, 0, 0, 0, 7]"
  by code_simp

lemma packed_apply:
  "encodePacked ''APPLY_PARAMETERS'' governor 9 =
     [65, 80, 80, 76, 89, 95, 80, 65, 82, 65, 77, 69, 84, 69, 82, 83,
      0, 0, 0, 0, 0, 0, 0, 0, 0, 0, 0, 0, 0, 0, 0, 0, 0, 0, 0, 1,
      0, 0, 0, 0, 0, 0, 0, 0, 0, 0, 0, 0, 0, 0, 0, 0,
      0, 0, 0, 0, 0, 0, 0, 0, 0, 0, 0, 0, 0, 0, 0, 9]"
  by code_simp

lemma packed_position:
  "encodePacked ''SUBMIT_POSITION'' alice 258 =
     [83, 85, 66, 77, 73, 84, 95, 80, 79, 83, 73, 84, 73, 79, 78,
      0, 0, 0, 0, 0, 0, 0, 0, 0, 0, 0, 0, 0, 0, 0, 0, 0, 0, 0, 2,
      0, 0, 0, 0, 0, 0, 0, 0, 0, 0, 0, 0, 0, 0, 0, 0,
      0, 0, 0, 0, 0, 0, 0, 0, 0, 0, 0, 0, 0, 0, 1, 2]"
  by code_simp

lemma audited_run:
  "successes kec genesis
      [volatility_tx alice 7 60, apply_tx alice 8 5 10, apply_tx governor 9 5 10] =
     [volatility_tx alice 7 60, apply_tx governor 9 5 10]"
proof -
  have a: "exec kec (volatility_tx alice 7 60) genesis =
      Inr (step kec genesis (volatility_tx alice 7 60))"
    by (simp add: exec_volatility_tx)
  have b: "exec kec (apply_tx alice 8 5 10) (step kec genesis (volatility_tx alice 7 60)) =
      Inl (Unauthorized alice)"
    by (simp add: apply_tx_def applyParameters_eq alice_def governor_def)
  have c: "exec kec (apply_tx governor 9 5 10) (step kec genesis (volatility_tx alice 7 60)) =
      Inr (step kec (step kec genesis (volatility_tx alice 7 60)) (apply_tx governor 9 5 10))"
    by (simp add: apply_tx_def applyParameters_eq step_applyParameters)
  show ?thesis
    by (simp add: a b c)
qed

text \<open>
  C7: after a sequence of transactions the audit log holds one entry per successful call,
  in the order of the calls, and none for a call that reverts; so \<open>getActionsLength()\<close> is
  the number of successful calls. The entry of a call is the hash of the packed encoding
  of its tag, its caller and its timestamp: the bytes of the tag, then the 20 bytes of the
  caller, then the 32 bytes of the timestamp, big-endian. The encoding determines the tag,
  the caller and the timestamp, and nothing else enters the digest: the values a call
  submits do not. On a run of a volatility submission by \<open>alice\<close> at time 7, a rejected
  \<open>applyParameters\<close> by \<open>alice\<close> at time 8 and an \<open>applyParameters\<close> by the owner at time 9,
  the log is the hash of the two byte strings spelled out below.
\<close>

theorem audit_trail:
  "actionHashes (run kec (constructor d self) txs) =
     map (txDigest kec) (successes kec (constructor d self) txs) \<and>
   getActionsLength (run kec (constructor d self) txs) =
     of_nat (length (successes kec (constructor d self) txs)) \<and>
   txDigest kec (m, c) = kec (encodePacked (actionTag c) (sender m) (timestamp m)) \<and>
   txDigest kec (m, SubmitPosition l pl pu prf) =
     kec (encodePacked ''SUBMIT_POSITION'' (sender m) (timestamp m)) \<and>
   txDigest kec (m, SubmitVolatility v prf') =
     kec (encodePacked ''SUBMIT_VOLATILITY'' (sender m) (timestamp m)) \<and>
   txDigest kec (m, ApplyParameters f t) =
     kec (encodePacked ''APPLY_PARAMETERS'' (sender m) (timestamp m)) \<and>
   length (encodePacked a w ts) = length a + 52 \<and>
   (encodePacked a w ts = encodePacked a' w' ts') = (a = a' \<and> w = w' \<and> ts = ts') \<and>
   encodePacked ''SUBMIT_POSITION'' alice 258 =
     [83, 85, 66, 77, 73, 84, 95, 80, 79, 83, 73, 84, 73, 79, 78,
      0, 0, 0, 0, 0, 0, 0, 0, 0, 0, 0, 0, 0, 0, 0, 0, 0, 0, 0, 2,
      0, 0, 0, 0, 0, 0, 0, 0, 0, 0, 0, 0, 0, 0, 0, 0,
      0, 0, 0, 0, 0, 0, 0, 0, 0, 0, 0, 0, 0, 0, 1, 2] \<and>
   actionHashes (run kec (constructor deployer amm)
      [volatility_tx alice 7 60, apply_tx alice 8 5 10, apply_tx governor 9 5 10]) =
     [kec [83, 85, 66, 77, 73, 84, 95, 86, 79, 76, 65, 84, 73, 76, 73, 84, 89,
           0, 0, 0, 0, 0, 0, 0, 0, 0, 0, 0, 0, 0, 0, 0, 0, 0, 0, 0, 2,
           0, 0, 0, 0, 0, 0, 0, 0, 0, 0, 0, 0, 0, 0, 0, 0,
           0, 0, 0, 0, 0, 0, 0, 0, 0, 0, 0, 0, 0, 0, 0, 7],
      kec [65, 80, 80, 76, 89, 95, 80, 65, 82, 65, 77, 69, 84, 69, 82, 83,
           0, 0, 0, 0, 0, 0, 0, 0, 0, 0, 0, 0, 0, 0, 0, 0, 0, 0, 0, 1,
           0, 0, 0, 0, 0, 0, 0, 0, 0, 0, 0, 0, 0, 0, 0, 0,
           0, 0, 0, 0, 0, 0, 0, 0, 0, 0, 0, 0, 0, 0, 0, 9]]"
proof -
  have log: "actionHashes (run kec (constructor d self) txs) =
      map (txDigest kec) (successes kec (constructor d self) txs)" for d self txs
    by (simp add: run_actionHashes constructor_eq)
  have digests: "txDigest kec (m, c) = kec (encodePacked (actionTag c) (sender m) (timestamp m))"
    for m c
    by (simp add: txDigest_def actionDigest_def)
  have succ: "successes kec (constructor deployer amm)
      [volatility_tx alice 7 60, apply_tx alice 8 5 10, apply_tx governor 9 5 10] =
     [volatility_tx alice 7 60, apply_tx governor 9 5 10]"
    using audited_run [of kec] by (simp only: genesis_def)
  have concrete: "actionHashes (run kec (constructor deployer amm)
      [volatility_tx alice 7 60, apply_tx alice 8 5 10, apply_tx governor 9 5 10]) =
     [kec (encodePacked ''SUBMIT_VOLATILITY'' alice 7),
      kec (encodePacked ''APPLY_PARAMETERS'' governor 9)]"
    unfolding log succ
    by (simp add: txDigest_def actionDigest_def volatility_tx_def apply_tx_def)
  show ?thesis
    using log [of d self txs] digests concrete
    by (simp add: getActionsLength_def encodePacked_length encodePacked_inj
        packed_volatility packed_apply packed_position)
qed

text \<open>
  C7, on the run above with the stand-in hash (the length of the input): the log holds
  the two digests 69 and 68, the lengths of the two packed encodings.
\<close>

theorem audit_trail_witness:
  "actionHashes (run keccak0 (constructor deployer amm)
      [volatility_tx alice 7 60, apply_tx alice 8 5 10, apply_tx governor 9 5 10]) = [69, 68] \<and>
   getActionsLength (run keccak0 (constructor deployer amm)
      [volatility_tx alice 7 60, apply_tx alice 8 5 10, apply_tx governor 9 5 10]) = 2"
proof -
  let ?txs = "[volatility_tx alice 7 60, apply_tx alice 8 5 10, apply_tx governor 9 5 10]"
  note log = audit_trail [of keccak0 deployer amm ?txs, THEN conjunct1]
  note len = audit_trail [of keccak0 deployer amm ?txs, THEN conjunct2, THEN conjunct1]
  have succ: "successes keccak0 (constructor deployer amm) ?txs =
      [volatility_tx alice 7 60, apply_tx governor 9 5 10]"
    using audited_run [of keccak0] by (simp only: genesis_def)
  show ?thesis
    unfolding log len succ
    by (simp add: txDigest_def actionDigest_def keccak0_def encodePacked_length
        volatility_tx_def apply_tx_def)
qed

section \<open>Authorization re-grant rule\<close>

lemma isInitialized_FHE_add [simp]: "isInitialized (FHE_add a b)"
  by (simp add: FHE_add_def Let_def)

lemma isInitialized_imported [simp]: "isInitialized (imported ext)"
  by (simp add: imported_def)

lemma isInitialized_updated [simp]: "isInitialized (updated v x)"
  by (simp add: updated_def FHE_select_def)

lemma grantees_union:
  assumes "acl s' = acl s \<union> H \<times> P" and "handles e \<subseteq> H" and "isInitialized e"
  shows "grantees s' e = grantees s e \<union> P"
  using assms by (cases e) (auto simp add: grantees_def)

lemma position_regrant:
  assumes run: "submitPosition kec m l pl pu prf s = Inr s'"
  shows "(\<forall>e \<in> set (regranted m s s').
            isInitialized e \<and> grantees s' e = grantees s e \<union> parties m s) \<and>
         acl s' = acl s \<union> (\<Union>e \<in> set (regranted m s s'). handles e) \<times> parties m s"
proof -
  from submitPosition_Inr [OF run]
  have ok: "certified3 prf m s l pl pu" and s': "s' = step kec s (m, SubmitPosition l pl pu prf)"
    by simp_all
  have acl: "acl s' = acl s \<union> (\<Union>e \<in> set (regranted m s s'). handles e) \<times> parties m s"
    using ok by (simp add: s' step_submitPosition regranted_def granted_def)
  have init: "\<forall>e \<in> set (regranted m s s'). isInitialized e"
    using ok by (simp add: s' step_submitPosition regranted_def)
  have "grantees s' e = grantees s e \<union> parties m s" if "e \<in> set (regranted m s s')" for e
  proof (rule grantees_union [OF acl])
    from that show "handles e \<subseteq> (\<Union>e \<in> set (regranted m s s'). handles e)"
      by blast
    from that init show "isInitialized e"
      by blast
  qed
  with init acl show ?thesis
    by blast
qed

lemma volatility_regrant:
  assumes run: "submitVolatility kec m v prf s = Inr s'"
  shows "(\<forall>e \<in> {suggestedFeeRatio s', suggestedTickSpacing s'}.
            isInitialized e \<and> grantees s' e = grantees s e \<union> parties m s) \<and>
         acl s' = acl s \<union>
           (handles (suggestedFeeRatio s') \<union> handles (suggestedTickSpacing s')) \<times> parties m s"
proof -
  from submitVolatility_Inr [OF run]
  have ok: "certified prf m s v" and s': "s' = step kec s (m, SubmitVolatility v prf)"
    by simp_all
  have acl: "acl s' = acl s \<union>
      (handles (suggestedFeeRatio s') \<union> handles (suggestedTickSpacing s')) \<times> parties m s"
    using ok by (simp add: s' step_submitVolatility granted_def)
  have init: "isInitialized (suggestedFeeRatio s')" "isInitialized (suggestedTickSpacing s')"
    using ok by (simp_all add: s' step_submitVolatility)
  from grantees_union [OF acl _ init(1)] grantees_union [OF acl _ init(2)] init acl
  show ?thesis
    by simp
qed

lemma parties_genesis: "parties \<lparr>sender = who, timestamp = ts\<rparr> genesis = {amm, who, governor}"
  by (simp add: parties_def genesis_eq)

text \<open>
  C8, as amended: a successful \<open>submitPosition\<close> grants every stored value it writes (the
  three sums, the caller's three fields, and the two counters on a first submission) to
  the contract, the caller and the owner, and adds no other grant: after the call the
  grantees of such a value are the grantees its handle had before the call together with
  those three parties. So the value is granted to exactly the three parties when its
  handle carried no grant to anyone else before. A successful \<open>submitVolatility\<close> does
  the same for the two suggestion fields. The values an operation computes on the way
  and does not keep in storage receive no grant.
\<close>

theorem authorization_regrant_additive:
  "(submitPosition kec m l pl pu prf s = Inr s' \<longrightarrow>
      (\<forall>e \<in> set (regranted m s s').
          isInitialized e \<and> grantees s' e = grantees s e \<union> parties m s \<and>
          (grantees s e \<subseteq> parties m s \<longrightarrow> grantees s' e = parties m s)) \<and>
      acl s' = acl s \<union> (\<Union>e \<in> set (regranted m s s'). handles e) \<times> parties m s) \<and>
   (submitVolatility kec m v prf' s = Inr s'' \<longrightarrow>
      (\<forall>e \<in> {suggestedFeeRatio s'', suggestedTickSpacing s''}.
          isInitialized e \<and> grantees s'' e = grantees s e \<union> parties m s \<and>
          (grantees s e \<subseteq> parties m s \<longrightarrow> grantees s'' e = parties m s)) \<and>
      acl s'' = acl s \<union>
        (handles (suggestedFeeRatio s'') \<union> handles (suggestedTickSpacing s'')) \<times> parties m s)"
proof -
  have p: "(\<forall>e \<in> set (regranted m s s').
          isInitialized e \<and> grantees s' e = grantees s e \<union> parties m s \<and>
          (grantees s e \<subseteq> parties m s \<longrightarrow> grantees s' e = parties m s)) \<and>
      acl s' = acl s \<union> (\<Union>e \<in> set (regranted m s s'). handles e) \<times> parties m s"
    if "submitPosition kec m l pl pu prf s = Inr s'"
    using position_regrant [OF that] by blast
  have v: "(\<forall>e \<in> {suggestedFeeRatio s'', suggestedTickSpacing s''}.
          isInitialized e \<and> grantees s'' e = grantees s e \<union> parties m s \<and>
          (grantees s e \<subseteq> parties m s \<longrightarrow> grantees s'' e = parties m s)) \<and>
      acl s'' = acl s \<union>
        (handles (suggestedFeeRatio s'') \<union> handles (suggestedTickSpacing s'')) \<times> parties m s"
    if "submitVolatility kec m v prf' s = Inr s''"
    using volatility_regrant [OF that] by blast
  from p v show ?thesis
    by blast
qed

theorem authorization_regrant_additive_witness:
  "exec keccak0 (position_tx alice 1 10 100 200) genesis =
     Inr (step keccak0 genesis (position_tx alice 1 10 100 200)) \<and>
   grantees genesis (aggLiquidity (step keccak0 genesis (position_tx alice 1 10 100 200))) = {} \<and>
   grantees (step keccak0 genesis (position_tx alice 1 10 100 200))
      (aggLiquidity (step keccak0 genesis (position_tx alice 1 10 100 200))) =
     {amm, alice, governor} \<and>
   grantees genesis (numPositions (step keccak0 genesis (position_tx alice 1 10 100 200))) = {} \<and>
   grantees (step keccak0 genesis (position_tx alice 1 10 100 200))
      (numPositions (step keccak0 genesis (position_tx alice 1 10 100 200))) =
     {amm, alice, governor} \<and>
   exec keccak0 (volatility_tx bob 7 60) genesis =
     Inr (step keccak0 genesis (volatility_tx bob 7 60)) \<and>
   grantees genesis (suggestedFeeRatio (step keccak0 genesis (volatility_tx bob 7 60))) = {} \<and>
   grantees (step keccak0 genesis (volatility_tx bob 7 60))
      (suggestedFeeRatio (step keccak0 genesis (volatility_tx bob 7 60))) =
     {amm, bob, governor}"
proof -
  let ?p = "position_tx alice 1 10 100 200" and ?v = "volatility_tx bob 7 60"
  let ?P = "step keccak0 genesis ?p" and ?V = "step keccak0 genesis ?v"
  have runp: "submitPosition keccak0 \<lparr>sender = alice, timestamp = 1\<rparr> (cipher 1 0 10)
      (cipher 1 1 100) (cipher 1 2 200)
      (proofFor alice [cipher 1 0 10, cipher 1 1 100, cipher 1 2 200]) genesis = Inr ?P"
    using exec_position_tx [of genesis keccak0 alice 1 10 100 200] by (simp add: position_tx_def)
  have runv: "submitVolatility keccak0 \<lparr>sender = bob, timestamp = 7\<rparr> (cipher 7 0 60)
      (proofFor bob [cipher 7 0 60]) genesis = Inr ?V"
    using exec_volatility_tx [of genesis keccak0 bob 7 60] by (simp add: volatility_tx_def)
  have new: "\<not> exists (positions genesis alice)"
    by (simp add: genesis_eq)
  have vals: "aggLiquidity ?P = Enc (FheAdd (Trivial 0) (Input 3)) 10"
    "numPositions ?P = Enc (FheAdd (Trivial 0) (Trivial 1)) 1"
    "suggestedFeeRatio ?V =
       Enc (FheIfThenElse (FheGe (Input 21) (Trivial 50)) (FheAdd (Trivial 0) (Trivial 1))
         (Trivial 0)) 1"
    apply (simp_all add: step_position_tx step_volatility_tx step_submitPosition
        step_submitVolatility genesis_eq)
    apply (simp_all add: FHE_add_def FHE_asEuint32_def imported_def updated_def
        FHE_select_def FHE_ge_def cipher_def)
    done
  have none: "grantees genesis (aggLiquidity ?P) = {}" "grantees genesis (numPositions ?P) = {}"
    "grantees genesis (suggestedFeeRatio ?V) = {}"
    unfolding vals by (simp_all add: grantees_def genesis_eq)
  from authorization_regrant_additive [of keccak0 "\<lparr>sender = alice, timestamp = 1\<rparr>"
      "cipher 1 0 10" "cipher 1 1 100" "cipher 1 2 200"
      "proofFor alice [cipher 1 0 10, cipher 1 1 100, cipher 1 2 200]" genesis ?P] runp new
  have "grantees ?P (aggLiquidity ?P) = grantees genesis (aggLiquidity ?P) \<union> {amm, alice, governor} \<and>
        grantees ?P (numPositions ?P) = grantees genesis (numPositions ?P) \<union> {amm, alice, governor}"
    by (simp add: regranted_def parties_genesis)
  moreover
  from authorization_regrant_additive [of keccak0 "\<lparr>sender = bob, timestamp = 7\<rparr>" _ _ _ _
      genesis _ "cipher 7 0 60" "proofFor bob [cipher 7 0 60]" ?V] runv
  have "grantees ?V (suggestedFeeRatio ?V) =
      grantees genesis (suggestedFeeRatio ?V) \<union> {amm, bob, governor}"
    by (simp add: parties_genesis)
  ultimately show ?thesis
    by (simp add: none exec_position_tx exec_volatility_tx)
qed

text \<open>
  C8 as stated fails: a stored value can end an operation with a fourth grantee. The
  import returns the handle the caller passes, and a grant is attached to the handle.
  \<open>alice\<close> submits the three ciphertexts with the handles 7, 8 and 9, which grants her the
  handle 7; she passes that grant on to \<open>bob\<close>; then she submits the same three
  ciphertexts again. All three calls succeed, and after the last one the liquidity stored
  in her position, which that call wrote and re-granted, is granted to the contract, to
  \<open>alice\<close>, to the owner and to \<open>bob\<close>.
\<close>

theorem authorization_fourth_grantee:
  "exec keccak0 (resubmitted_tx alice 1) genesis = Inr submitted \<and>
   ACL_allow alice (Input 7) bob submitted = Inr passed_on \<and>
   exec keccak0 (resubmitted_tx alice 2) passed_on =
     Inr (step keccak0 passed_on (resubmitted_tx alice 2)) \<and>
   liquidity (positions (step keccak0 passed_on (resubmitted_tx alice 2)) alice) \<in>
     set (regranted (fst (resubmitted_tx alice 2)) passed_on
       (step keccak0 passed_on (resubmitted_tx alice 2))) \<and>
   parties (fst (resubmitted_tx alice 2)) passed_on = {amm, alice, governor} \<and>
   grantees (step keccak0 passed_on (resubmitted_tx alice 2))
      (liquidity (positions (step keccak0 passed_on (resubmitted_tx alice 2)) alice)) =
     {amm, alice, governor, bob} \<and>
   bob \<notin> parties (fst (resubmitted_tx alice 2)) passed_on"
proof -
  let ?a = "resubmitted_tx alice 2"
  let ?A = "step keccak0 passed_on ?a"
  have ok: "certified3 (proofFor who [External 7 10, External 8 100, External 9 200])
      \<lparr>sender = who, timestamp = ts\<rparr> s (External 7 10) (External 8 100) (External 9 200)"
    if "thisAddress s = amm" for who ts s
    using that by (rule certified3_proofFor)
  have address: "thisAddress passed_on = amm" "owner passed_on = governor"
    by (simp_all add: passed_on_def submitted_def)
  have first: "exec keccak0 (resubmitted_tx alice 1) genesis = Inr submitted"
    by (simp add: submitted_def resubmitted_tx_def submitPosition_accepted ok)
  have held: "grantees submitted (Enc (Input 7) 10) = {amm, alice, governor}"
    by (auto simp add: submitted_def resubmitted_tx_def step_submitPosition ok grantees_def
        granted_def parties_def genesis_eq imported_def FHE_add_def FHE_asEuint32_def)
  then have "(Input 7, alice) \<in> acl submitted"
    by (auto simp add: grantees_def)
  then have pass: "ACL_allow alice (Input 7) bob submitted = Inr passed_on"
    by (simp add: ACL_allow_def passed_on_def)
  have again: "exec keccak0 ?a passed_on = Inr ?A"
    by (simp add: resubmitted_tx_def submitPosition_accepted ok address)
  have parties: "parties (fst ?a) passed_on = {amm, alice, governor}"
    by (simp add: resubmitted_tx_def parties_def address)
  have stored: "liquidity (positions ?A alice) = Enc (Input 7) 10"
    by (simp add: resubmitted_tx_def step_submitPosition ok address imported_def)
  have listed: "liquidity (positions ?A alice) \<in> set (regranted (fst ?a) passed_on ?A)"
    by (simp add: regranted_def resubmitted_tx_def)
  have before: "grantees passed_on (Enc (Input 7) 10) = {amm, alice, governor, bob}"
    using held by (auto simp add: passed_on_def grantees_def)
  from position_regrant [of keccak0 "fst ?a" "External 7 10" "External 8 100" "External 9 200"
      "proofFor alice [External 7 10, External 8 100, External 9 200]" passed_on ?A] again listed
  have "grantees ?A (liquidity (positions ?A alice)) =
      grantees passed_on (liquidity (positions ?A alice)) \<union> parties (fst ?a) passed_on"
    by (simp add: resubmitted_tx_def)
  then have after: "grantees ?A (liquidity (positions ?A alice)) = {amm, alice, governor, bob}"
    unfolding stored before parties by auto
  have fourth: "bob \<notin> parties (fst ?a) passed_on"
    unfolding parties by (simp add: bob_def amm_def alice_def governor_def)
  show ?thesis
    using first pass again listed parties after fourth by simp
qed

section \<open>Aggregate consistency\<close>

lemma sum_update_in:
  fixes f :: "'a \<Rightarrow> 'b::ab_group_add"
  assumes "finite S" and "x \<in> S"
  shows "(\<Sum>a\<in>S. (f(x := v)) a) = (\<Sum>a\<in>S. f a) - f x + v"
proof -
  have "(\<Sum>a\<in>S. (f(x := v)) a) = v + (\<Sum>a\<in>S - {x}. (f(x := v)) a)"
    using assms by (simp add: sum.remove)
  also have "(\<Sum>a\<in>S - {x}. (f(x := v)) a) = (\<Sum>a\<in>S - {x}. f a)"
    by (rule sum.cong) auto
  also have "\<dots> = (\<Sum>a\<in>S. f a) - f x"
    using assms by (simp add: sum.remove)
  finally show ?thesis by (simp add: algebra_simps)
qed

lemma sum_update_new:
  fixes f :: "'a \<Rightarrow> 'b::ab_group_add"
  assumes "finite S" and "x \<notin> S"
  shows "(\<Sum>a\<in>insert x S. (f(x := v)) a) = (\<Sum>a\<in>S. f a) + v"
proof -
  have "(\<Sum>a\<in>insert x S. (f(x := v)) a) = v + (\<Sum>a\<in>S. (f(x := v)) a)"
    using assms by simp
  also have "(\<Sum>a\<in>S. (f(x := v)) a) = (\<Sum>a\<in>S. f a)"
    using assms by (intro sum.cong) auto
  finally show ?thesis by (simp add: algebra_simps)
qed

lemma total_replace:
  assumes "exists (ps x)" and "exists p"
  shows "total field (ps(x := p)) = total field ps - dec (field (ps x)) + dec (field p)"
proof -
  have set: "{a. exists ((ps(x := p)) a)} = {a. exists (ps a)}"
    using assms by auto
  have "total field (ps(x := p)) =
          (\<Sum>a | exists (ps a). ((\<lambda>a. dec (field (ps a)))(x := dec (field p))) a)"
    unfolding total_def set by (rule sum.cong) auto
  also have "\<dots> = total field ps - dec (field (ps x)) + dec (field p)"
    unfolding total_def using assms(1) by (intro sum_update_in) simp_all
  finally show ?thesis .
qed

lemma total_first:
  assumes "\<not> exists (ps x)" and "exists p"
  shows "total field (ps(x := p)) = total field ps + dec (field p)"
proof -
  have set: "{a. exists ((ps(x := p)) a)} = insert x {a. exists (ps a)}"
    using assms by auto
  have "total field (ps(x := p)) =
          (\<Sum>a\<in>insert x {a. exists (ps a)}. ((\<lambda>a. dec (field (ps a)))(x := dec (field p))) a)"
    unfolding total_def set by (rule sum.cong) auto
  also have "\<dots> = total field ps + dec (field p)"
    unfolding total_def using assms(1) by (intro sum_update_new) simp_all
  finally show ?thesis .
qed

lemma step_consistent: "consistent s \<Longrightarrow> consistent (step kec s tx)"
proof (cases tx)
  case (Pair m c)
  assume inv: "consistent s"
  show ?thesis
  proof (cases c)
    case (SubmitPosition l pl pu ip)
    show ?thesis
      using inv unfolding Pair SubmitPosition
      by (auto simp add: consistent_def step_submitPosition total_replace total_first)
  next
    case (SubmitVolatility v ip)
    with Pair inv show ?thesis
      by (auto simp add: consistent_def step_submitVolatility)
  next
    case (ApplyParameters f t)
    with Pair inv show ?thesis
      by (auto simp add: consistent_def step_applyParameters)
  qed
qed

lemma run_consistent: "consistent s \<Longrightarrow> consistent (run kec s txs)"
  by (induction txs arbitrary: s) (simp_all add: step_consistent)

lemma constructor_consistent: "consistent (constructor d self)"
  by (simp add: consistent_def total_def constructor_eq)

lemma unat_sum_mod:
  fixes f :: "'a \<Rightarrow> 'b::len word"
  shows "unat (\<Sum>a\<in>S. f a) = (\<Sum>a\<in>S. unat (f a)) mod 2 ^ LENGTH('b)"
proof -
  have "(\<Sum>a\<in>S. f a) = of_nat (\<Sum>a\<in>S. unat (f a))"
    by simp
  then show ?thesis
    by (simp only: unat_of_nat)
qed


lemma submission_certified:
  "submission (thisAddress s) (m, SubmitPosition l pl pu ip) =
     (if certified3 ip m s l pl pu
      then Some (sender m, cleartext l, cleartext pl, cleartext pu) else None)"
  by (auto simp add: certified3_def certified_def)

lemma step_view:
  assumes "\<forall>a. view (positions s a) = shown (mu a)"
  shows "view (positions (step kec s tx) a) =
           shown (record_submission (thisAddress s) mu tx a)"
proof (cases tx)
  case (Pair m c)
  show ?thesis
  proof (cases c)
    case (SubmitPosition l pl pu ip)
    with Pair assms show ?thesis
      by (simp add: step_submitPosition record_submission_def submission_certified
          view_def shown_def del: submission.simps)
  next
    case (SubmitVolatility v ip)
    with Pair assms show ?thesis
      by (simp add: step_submitVolatility record_submission_def)
  next
    case (ApplyParameters f t)
    with Pair assms show ?thesis
      by (simp add: step_applyParameters record_submission_def)
  qed
qed

lemma deployed_view:
  "view (positions (deployed kec d self txs) a) = shown (latest self txs a)"
proof (induction txs arbitrary: a rule: rev_induct)
  case Nil
  show ?case
    by (simp add: deployed_def latest_def constructor_eq view_def shown_def)
next
  case (snoc tx txs)
  have "\<forall>a. view (positions (deployed kec d self txs) a) = shown (latest self txs a)"
    using snoc.IH by simp
  from step_view [OF this, of kec tx a] show ?case
    by (simp add: deployed_def latest_def constructor_eq)
qed

lemma deployed_consistent: "consistent (deployed kec d self txs)"
  by (simp add: deployed_def run_consistent constructor_consistent)

text \<open>
  C1, as amended: after every sequence of transactions from construction, the position of
  each identity shows its most recently submitted values (and \<open>exists\<close> exactly when it has
  submitted), and \<open>sumLiquidity\<close>, \<open>sumPriceLower\<close> and \<open>sumPriceUpper\<close> decrypt to the sum,
  modulo \<open>2^32\<close>, of the stored liquidity, lower price and upper price over exactly the
  identities whose position exists.
\<close>

theorem aggregate_consistency_mod:
  "(\<forall>a. view (positions (deployed kec d self txs) a) = shown (latest self txs a)) \<and>
   unat (dec (aggLiquidity (deployed kec d self txs))) =
     (\<Sum>a | exists (positions (deployed kec d self txs) a).
        unat (dec (liquidity (positions (deployed kec d self txs) a)))) mod 2 ^ 32 \<and>
   unat (dec (sumPriceLower (deployed kec d self txs))) =
     (\<Sum>a | exists (positions (deployed kec d self txs) a).
        unat (dec (priceLower (positions (deployed kec d self txs) a)))) mod 2 ^ 32 \<and>
   unat (dec (sumPriceUpper (deployed kec d self txs))) =
     (\<Sum>a | exists (positions (deployed kec d self txs) a).
        unat (dec (priceUpper (positions (deployed kec d self txs) a)))) mod 2 ^ 32"
  using deployed_consistent [of kec d self txs]
  by (simp add: deployed_view consistent_def total_def unat_sum_mod)


text \<open>
  The sum in C1 is not the arithmetic sum: when \<open>alice\<close> and \<open>bob\<close> each submit a
  liquidity of \<open>2^31\<close>, both positions exist and their liquidities add up to \<open>2^32\<close>, but
  \<open>sumLiquidity\<close> decrypts to 0.
\<close>

theorem aggregate_sum_overflow:
  "unat (dec (aggLiquidity (deployed keccak0 deployer amm overflowing))) \<noteq>
     (\<Sum>a | exists (positions (deployed keccak0 deployer amm overflowing) a).
        unat (dec (liquidity (positions (deployed keccak0 deployer amm overflowing) a))))"
proof -
  let ?S = "deployed keccak0 deployer amm overflowing"
  have holders: "{a. exists (positions ?S a)} = {alice, bob}"
    by (auto simp add: deployed_genesis overflowing_def step_position_tx step_submitPosition
        genesis_eq)
  have vals: "unat (dec (liquidity (positions ?S alice))) = 2147483648"
    "unat (dec (liquidity (positions ?S bob))) = 2147483648"
    "unat (dec (aggLiquidity ?S)) = 0"
    by (simp_all add: deployed_genesis overflowing_def step_position_tx step_submitPosition
        genesis_eq)
  show ?thesis
    by (simp add: holders vals)
qed


section \<open>Idempotent replace\<close>

lemma record_submission_other:
  assumes "\<forall>a. a \<noteq> x \<longrightarrow> mu a = mu' a"
  shows "\<forall>a. a \<noteq> x \<longrightarrow> record_submission self mu tx a = record_submission self mu' tx a"
  using assms by (auto simp add: record_submission_def split: option.splits)

lemma foldl_record_other:
  assumes "\<forall>a. a \<noteq> x \<longrightarrow> mu a = mu' a"
  shows "\<forall>a. a \<noteq> x \<longrightarrow>
           foldl (record_submission self) mu txs a = foldl (record_submission self) mu' txs a"
  using assms
proof (induction txs arbitrary: mu mu')
  case Nil
  then show ?case by simp
next
  case (Cons tx txs)
  from Cons.IH [OF record_submission_other [OF Cons.prems]] show ?case
    by simp
qed

lemma latest_overwrite:
  assumes A: "submission self txA = None \<or> (\<exists>v. submission self txA = Some (x, v))"
    and B: "submission self txB = Some (x, w)"
  shows "latest self (txs1 @ [txA] @ txs2 @ [txB]) = latest self (txs1 @ txs2 @ [txB])"
proof -
  let ?mu = "foldl (record_submission self) Map.empty txs1"
  have "\<forall>a. a \<noteq> x \<longrightarrow> record_submission self ?mu txA a = ?mu a"
    using A by (auto simp add: record_submission_def)
  from foldl_record_other [OF this, of self txs2]
  have other: "\<forall>a. a \<noteq> x \<longrightarrow>
      foldl (record_submission self) (record_submission self ?mu txA) txs2 a =
      foldl (record_submission self) ?mu txs2 a" .
  show ?thesis
  proof
    fix a
    show "latest self (txs1 @ [txA] @ txs2 @ [txB]) a = latest self (txs1 @ txs2 @ [txB]) a"
      using other B by (cases "a = x") (simp_all add: latest_def record_submission_def)
  qed
qed

lemma total_view:
  assumes "\<forall>a. view (ps a) = view (ps' a)"
  shows "total liquidity ps = total liquidity ps' \<and>
         total priceLower ps = total priceLower ps' \<and>
         total priceUpper ps = total priceUpper ps'"
proof -
  from assms have same: "exists (ps a) = exists (ps' a)"
    "dec (liquidity (ps a)) = dec (liquidity (ps' a))"
    "dec (priceLower (ps a)) = dec (priceLower (ps' a))"
    "dec (priceUpper (ps a)) = dec (priceUpper (ps' a))" for a
    by (simp_all add: view_def)
  show ?thesis
    by (simp add: total_def same)
qed

lemma latest_determines_sums:
  assumes "latest self txs = latest self txs'"
  shows "dec (aggLiquidity (deployed kec d self txs)) =
           dec (aggLiquidity (deployed kec' d' self txs')) \<and>
         dec (sumPriceLower (deployed kec d self txs)) =
           dec (sumPriceLower (deployed kec' d' self txs')) \<and>
         dec (sumPriceUpper (deployed kec d self txs)) =
           dec (sumPriceUpper (deployed kec' d' self txs'))"
proof -
  have "\<forall>a. view (positions (deployed kec d self txs) a) =
      view (positions (deployed kec' d' self txs') a)"
    by (simp add: deployed_view assms)
  from total_view [OF this]
    deployed_consistent [of kec d self txs] deployed_consistent [of kec' d' self txs']
  show ?thesis
    by (simp add: consistent_def)
qed


text \<open>
  C2, as amended: when an identity submits position A and then position B, the three
  aggregate sums and every stored position decrypt to the same values as if the identity
  had submitted only B in the state before A. The first \<open>submitPosition\<close> of an identity
  adds 1 modulo \<open>2^32\<close> to \<open>numPositions\<close> (which is exactly 1 more as long as the counter
  is below \<open>2^32 - 1\<close>), a call by an identity that already has a position leaves it
  unchanged, and so does every later \<open>submitPosition\<close> of the same identity, whatever
  transactions come in between. Over whole histories: when a history from construction
  ends with a submission B of an identity, dropping an earlier submission A of that
  identity from the history does not change what the three sums decrypt to.
\<close>

theorem submitPosition_idempotent_replace_mod:
  assumes A: "submitPosition kec mA a1 a2 a3 prfA s = Inr sA"
    and B: "submitPosition kec mB b1 b2 b3 prfB sA = Inr sAB"
    and B': "submitPosition kec mB' b1 b2 b3 prfB' s = Inr sB"
    and same: "sender mB = sender mA" "sender mB' = sender mA"
  shows "dec (aggLiquidity sAB) = dec (aggLiquidity sB) \<and>
         dec (sumPriceLower sAB) = dec (sumPriceLower sB) \<and>
         dec (sumPriceUpper sAB) = dec (sumPriceUpper sB) \<and>
         (\<forall>x. view (positions sAB x) = view (positions sB x)) \<and>
         unat (dec (numPositions sA)) =
           (if exists (positions s (sender mA)) then unat (dec (numPositions s))
            else (unat (dec (numPositions s)) + 1) mod 2 ^ 32) \<and>
         (\<not> exists (positions s (sender mA)) \<and> unat (dec (numPositions s)) < 2 ^ 32 - 1 \<longrightarrow>
            unat (dec (numPositions sA)) = unat (dec (numPositions s)) + 1) \<and>
         numPositions sAB = numPositions sA \<and>
         dec (numPositions sAB) = dec (numPositions sB) \<and>
         (\<forall>txs mC c1 c2 c3 prfC t.
            sender mC = sender mA \<and>
            submitPosition kec mC c1 c2 c3 prfC (run kec sA txs) = Inr t \<longrightarrow>
            numPositions t = numPositions (run kec sA txs)) \<and>
         (submission self txA = Some (x, v) \<and> submission self txB = Some (x, w) \<longrightarrow>
            dec (aggLiquidity (deployed kec d self (txs1 @ [txA] @ txs2 @ [txB]))) =
              dec (aggLiquidity (deployed kec d self (txs1 @ txs2 @ [txB]))) \<and>
            dec (sumPriceLower (deployed kec d self (txs1 @ [txA] @ txs2 @ [txB]))) =
              dec (sumPriceLower (deployed kec d self (txs1 @ txs2 @ [txB]))) \<and>
            dec (sumPriceUpper (deployed kec d self (txs1 @ [txA] @ txs2 @ [txB]))) =
              dec (sumPriceUpper (deployed kec d self (txs1 @ txs2 @ [txB]))))"
proof -
  from submitPosition_Inr [OF A]
  have okA: "certified3 prfA mA s a1 a2 a3"
    and sA: "sA = step kec s (mA, SubmitPosition a1 a2 a3 prfA)"
    by simp_all
  from submitPosition_Inr [OF B]
  have okB: "certified3 prfB mB sA b1 b2 b3"
    and sAB: "sAB = step kec sA (mB, SubmitPosition b1 b2 b3 prfB)"
    by simp_all
  from submitPosition_Inr [OF B']
  have okB': "certified3 prfB' mB' s b1 b2 b3"
    and sB: "sB = step kec s (mB', SubmitPosition b1 b2 b3 prfB')"
    by simp_all
  have exA: "exists (positions sA (sender mA))"
    using okA by (simp add: sA step_submitPosition)
  have later: "numPositions t = numPositions (run kec sA txs)"
    if "sender mC = sender mA"
      and "submitPosition kec mC c1 c2 c3 prfC (run kec sA txs) = Inr t"
    for txs mC c1 c2 c3 prfC t
  proof -
    from submitPosition_Inr [OF that(2)]
    have ok: "certified3 prfC mC (run kec sA txs) c1 c2 c3"
      and t: "t = step kec (run kec sA txs) (mC, SubmitPosition c1 c2 c3 prfC)"
      by simp_all
    from run_exists [OF exA] that(1) have "exists (positions (run kec sA txs) (sender mC))"
      by simp
    with ok show ?thesis
      by (simp add: t step_submitPosition)
  qed
  have valsA:
    "dec (aggLiquidity sA) =
       (if exists (positions s (sender mA))
        then dec (aggLiquidity s) - dec (liquidity (positions s (sender mA))) + cleartext a1
        else dec (aggLiquidity s) + cleartext a1)"
    "dec (sumPriceLower sA) =
       (if exists (positions s (sender mA))
        then dec (sumPriceLower s) - dec (priceLower (positions s (sender mA))) + cleartext a2
        else dec (sumPriceLower s) + cleartext a2)"
    "dec (sumPriceUpper sA) =
       (if exists (positions s (sender mA))
        then dec (sumPriceUpper s) - dec (priceUpper (positions s (sender mA))) + cleartext a3
        else dec (sumPriceUpper s) + cleartext a3)"
    "view (positions sA (sender mA)) = (True, cleartext a1, cleartext a2, cleartext a3)"
    "\<And>x. x \<noteq> sender mA \<Longrightarrow> positions sA x = positions s x"
    "dec (numPositions sA) =
       (if exists (positions s (sender mA)) then dec (numPositions s)
        else dec (numPositions s) + 1)"
    using okA by (simp_all add: sA step_submitPosition view_def)
  have valsAB:
    "dec (aggLiquidity sAB) =
       dec (aggLiquidity sA) - dec (liquidity (positions sA (sender mA))) + cleartext b1"
    "dec (sumPriceLower sAB) =
       dec (sumPriceLower sA) - dec (priceLower (positions sA (sender mA))) + cleartext b2"
    "dec (sumPriceUpper sAB) =
       dec (sumPriceUpper sA) - dec (priceUpper (positions sA (sender mA))) + cleartext b3"
    "view (positions sAB (sender mA)) = (True, cleartext b1, cleartext b2, cleartext b3)"
    "\<And>x. x \<noteq> sender mA \<Longrightarrow> positions sAB x = positions sA x"
    "numPositions sAB = numPositions sA"
    using okB exA same by (simp_all add: sAB step_submitPosition view_def)
  have valsB:
    "dec (aggLiquidity sB) =
       (if exists (positions s (sender mA))
        then dec (aggLiquidity s) - dec (liquidity (positions s (sender mA))) + cleartext b1
        else dec (aggLiquidity s) + cleartext b1)"
    "dec (sumPriceLower sB) =
       (if exists (positions s (sender mA))
        then dec (sumPriceLower s) - dec (priceLower (positions s (sender mA))) + cleartext b2
        else dec (sumPriceLower s) + cleartext b2)"
    "dec (sumPriceUpper sB) =
       (if exists (positions s (sender mA))
        then dec (sumPriceUpper s) - dec (priceUpper (positions s (sender mA))) + cleartext b3
        else dec (sumPriceUpper s) + cleartext b3)"
    "view (positions sB (sender mA)) = (True, cleartext b1, cleartext b2, cleartext b3)"
    "\<And>x. x \<noteq> sender mA \<Longrightarrow> positions sB x = positions s x"
    "dec (numPositions sB) =
       (if exists (positions s (sender mA)) then dec (numPositions s)
        else dec (numPositions s) + 1)"
    using okB' same by (simp_all add: sB step_submitPosition view_def)
  have stored:
    "dec (liquidity (positions sA (sender mA))) = cleartext a1"
    "dec (priceLower (positions sA (sender mA))) = cleartext a2"
    "dec (priceUpper (positions sA (sender mA))) = cleartext a3"
    using valsA(4) by (simp_all add: view_def)
  have views: "view (positions sAB x) = view (positions sB x)" for x
    by (cases "x = sender mA") (simp_all add: valsA valsAB valsB)
  have sums: "dec (aggLiquidity sAB) = dec (aggLiquidity sB) \<and>
      dec (sumPriceLower sAB) = dec (sumPriceLower sB) \<and>
      dec (sumPriceUpper sAB) = dec (sumPriceUpper sB)"
    by (simp add: valsA valsAB valsB stored)
  have counts: "numPositions sAB = numPositions sA \<and>
      dec (numPositions sAB) = dec (numPositions sB)"
    by (simp add: valsA valsAB valsB)
  from later have later':
    "\<forall>txs mC c1 c2 c3 prfC t.
        sender mC = sender mA \<and>
        submitPosition kec mC c1 c2 c3 prfC (run kec sA txs) = Inr t \<longrightarrow>
        numPositions t = numPositions (run kec sA txs)"
    by blast
  have sequence:
    "dec (aggLiquidity (deployed kec d self (txs1 @ [txA] @ txs2 @ [txB]))) =
       dec (aggLiquidity (deployed kec d self (txs1 @ txs2 @ [txB]))) \<and>
     dec (sumPriceLower (deployed kec d self (txs1 @ [txA] @ txs2 @ [txB]))) =
       dec (sumPriceLower (deployed kec d self (txs1 @ txs2 @ [txB]))) \<and>
     dec (sumPriceUpper (deployed kec d self (txs1 @ [txA] @ txs2 @ [txB]))) =
       dec (sumPriceUpper (deployed kec d self (txs1 @ txs2 @ [txB])))"
    if "submission self txA = Some (x, v)" and "submission self txB = Some (x, w)"
  proof -
    from that(1) have "submission self txA = None \<or> (\<exists>v. submission self txA = Some (x, v))"
      by blast
    from latest_overwrite [OF this that(2)] show ?thesis
      by (rule latest_determines_sums)
  qed
  have count: "unat (dec (numPositions sA)) =
      (if exists (positions s (sender mA)) then unat (dec (numPositions s))
       else (unat (dec (numPositions s)) + 1) mod 2 ^ 32)"
    by (simp only: valsA(6) unat_inc_mod if_distrib [of "\<lambda>x. unat x"])
  have exact: "unat (dec (numPositions sA)) = unat (dec (numPositions s)) + 1"
    if "\<not> exists (positions s (sender mA))" and "unat (dec (numPositions s)) < 2 ^ 32 - 1"
    using valsA(6) that(1) unat_inc_exact [OF that(2)] by simp
  show ?thesis
    using sums counts views count exact later' sequence by blast
qed

theorem submitPosition_idempotent_replace_mod_witness:
  "exec keccak0 (position_tx alice 1 10 100 200) genesis =
     Inr (step keccak0 genesis (position_tx alice 1 10 100 200)) \<and>
   exec keccak0 (position_tx alice 2 15 90 210)
      (step keccak0 genesis (position_tx alice 1 10 100 200)) =
     Inr (run keccak0 genesis [position_tx alice 1 10 100 200, position_tx alice 2 15 90 210]) \<and>
   exec keccak0 (position_tx alice 2 15 90 210) genesis =
     Inr (step keccak0 genesis (position_tx alice 2 15 90 210)) \<and>
   \<not> exists (positions genesis alice) \<and>
   unat (dec (numPositions genesis)) < 2 ^ 32 - 1 \<and>
   dec (aggLiquidity
      (run keccak0 genesis [position_tx alice 1 10 100 200, position_tx alice 2 15 90 210])) = 15 \<and>
   unat (dec (numPositions (step keccak0 genesis (position_tx alice 1 10 100 200)))) = 1 \<and>
   unat (dec (numPositions
      (run keccak0 genesis [position_tx alice 1 10 100 200, position_tx alice 2 15 90 210]))) = 1 \<and>
   submission amm (position_tx alice 1 10 100 200) = Some (alice, 10, 100, 200) \<and>
   submission amm (position_tx alice 2 15 90 210) = Some (alice, 15, 90, 210) \<and>
   dec (aggLiquidity (deployed keccak0 deployer amm
      ([] @ [position_tx alice 1 10 100 200] @ [position_tx bob 3 7 50 60] @
       [position_tx alice 2 15 90 210]))) = 22"
proof -
  let ?a = "position_tx alice 1 10 100 200" and ?b = "position_tx alice 2 15 90 210"
  let ?c = "position_tx bob 3 7 50 60"
  let ?ma = "\<lparr>sender = alice, timestamp = 1\<rparr>" and ?mb = "\<lparr>sender = alice, timestamp = 2\<rparr>"
  let ?pa = "proofFor alice [cipher 1 0 10, cipher 1 1 100, cipher 1 2 200]"
  let ?pb = "proofFor alice [cipher 2 0 15, cipher 2 1 90, cipher 2 2 210]"
  have A: "submitPosition keccak0 ?ma (cipher 1 0 10) (cipher 1 1 100) (cipher 1 2 200) ?pa
      genesis = Inr (step keccak0 genesis ?a)"
    using exec_position_tx [of genesis keccak0 alice 1 10 100 200] by (simp add: position_tx_def)
  have B: "submitPosition keccak0 ?mb (cipher 2 0 15) (cipher 2 1 90) (cipher 2 2 210) ?pb
      (step keccak0 genesis ?a) = Inr (run keccak0 genesis [?a, ?b])"
    using exec_position_tx [of "step keccak0 genesis ?a" keccak0 alice 2 15 90 210]
    by (simp add: position_tx_def)
  have B': "submitPosition keccak0 ?mb (cipher 2 0 15) (cipher 2 1 90) (cipher 2 2 210) ?pb
      genesis = Inr (step keccak0 genesis ?b)"
    using exec_position_tx [of genesis keccak0 alice 2 15 90 210] by (simp add: position_tx_def)
  have same: "sender ?mb = sender ?ma"
    by simp
  have onlyB: "dec (aggLiquidity (step keccak0 genesis ?b)) = 15"
    by (simp add: step_position_tx step_submitPosition genesis_eq)
  have first: "\<not> exists (positions genesis (sender ?ma))"
    "unat (dec (numPositions genesis)) < 2 ^ 32 - 1" "dec (numPositions genesis) = 0"
    by (simp_all add: genesis_eq)
  have subA: "submission amm ?a = Some (alice, 10, 100, 200)"
    and subB: "submission amm ?b = Some (alice, 15, 90, 210)"
    by (simp_all add: position_tx_def proofFor_def)
  have dropped: "dec (aggLiquidity (deployed keccak0 deployer amm ([] @ [?c] @ [?b]))) = 22"
    by (simp add: deployed_genesis step_position_tx step_submitPosition genesis_eq)
  have runs: "exec keccak0 ?a genesis = Inr (step keccak0 genesis ?a)"
    "exec keccak0 ?b (step keccak0 genesis ?a) = Inr (run keccak0 genesis [?a, ?b])"
    "exec keccak0 ?b genesis = Inr (step keccak0 genesis ?b)"
    by (simp_all add: exec_position_tx)
  from submitPosition_idempotent_replace_mod [OF A B B' same same,
      where self = amm and txA = ?a and txB = ?b and x = alice and v = "(10, 100, 200)"
        and w = "(15, 90, 210)" and d = deployer and ?txs1.0 = "[]" and ?txs2.0 = "[?c]"]
    onlyB first subA subB dropped
  show ?thesis
    using runs by simp
qed

text \<open>
  C2 as stated, with the increase of \<open>numPositions\<close> read in the integers, fails: after
  \<open>2^32 - 1\<close> identities have each submitted a first position, \<open>numPositions\<close> decrypts to
  \<open>2^32 - 1\<close>; the first submission of one more identity succeeds and \<open>numPositions\<close>
  decrypts to 0, not to \<open>2^32\<close>.
\<close>

theorem numPositions_increment_wraps:
  "exec keccak0 (member_tx 4294967295) (deployed keccak0 deployer amm (crowd 4294967295)) =
     Inr (step keccak0 (deployed keccak0 deployer amm (crowd 4294967295))
       (member_tx 4294967295)) \<and>
   \<not> exists (positions (deployed keccak0 deployer amm (crowd 4294967295))
      (sender (fst (member_tx 4294967295)))) \<and>
   unat (dec (numPositions (deployed keccak0 deployer amm (crowd 4294967295)))) = 4294967295 \<and>
   unat (dec (numPositions (step keccak0 (deployed keccak0 deployer amm (crowd 4294967295))
      (member_tx 4294967295)))) = 0 \<and>
   unat (dec (numPositions (step keccak0 (deployed keccak0 deployer amm (crowd 4294967295))
      (member_tx 4294967295)))) \<noteq>
     unat (dec (numPositions (deployed keccak0 deployer amm (crowd 4294967295)))) + 1"
proof -
  let ?S = "run keccak0 genesis (crowd 4294967295)"
  have run: "exec keccak0 (member_tx 4294967295) ?S = Inr (step keccak0 ?S (member_tx 4294967295))"
    by (simp add: member_tx_def exec_position_tx)
  have new: "\<not> exists (positions ?S (sender (fst (member_tx 4294967295))))"
    using crowd_new [of 4294967295 keccak0] by simp
  show ?thesis
    using run new crowd_full [of keccak0] by (simp add: deployed_genesis)
qed

section \<open>Suggestions lifecycle\<close>




section \<open>Wrap-around of the encrypted arithmetic\<close>

text \<open>
  C10: every encrypted quantity is a \<open>uint32\<close>, and the additions and subtractions of
  \<open>submitPosition\<close> and \<open>submitVolatility\<close> are performed modulo \<open>2^32\<close>: \<open>FHE.add\<close> and
  \<open>FHE.sub\<close> wrap, \<open>submitPosition\<close> fails only when an import is not certified (never on
  the subtraction of a replace), and the new sum, counter and suggestion are the old ones
  plus or minus the operands modulo \<open>2^32\<close>. After every sequence of transactions the
  co-derivation and the aggregate consistency hold modulo \<open>2^32\<close>; read in the natural
  numbers they stop holding once a value wraps: after \<open>2^31\<close> first submissions
  \<open>numPositions\<close> is \<open>2^31\<close> and \<open>twoTimesNumPositions\<close> is 0; and after liquidities of
  \<open>3 * 2^30\<close> and \<open>2^30\<close> the running sum is 0, below the stored value a replace
  subtracts, and the replace by 5 succeeds and leaves \<open>2^30 + 5\<close>.
\<close>

theorem uint32_wraparound:
  "unat (dec (FHE_add a b)) = (unat (dec a) + unat (dec b)) mod 2 ^ 32 \<and>
   unat (dec (FHE_sub a b)) = (unat (dec a) + 2 ^ 32 - unat (dec b)) mod 2 ^ 32 \<and>
   submitPosition kec m l pl pu ip s =
     (if certified3 ip m s l pl pu then Inr (step kec s (m, SubmitPosition l pl pu ip))
      else Inl InvalidCiphertextProof) \<and>
   unat (dec (aggLiquidity (step kec s (m, SubmitPosition l pl pu ip)))) =
     (if \<not> certified3 ip m s l pl pu then unat (dec (aggLiquidity s))
      else if exists (positions s (sender m))
      then (unat (dec (aggLiquidity s)) + 2 ^ 32 -
              unat (dec (liquidity (positions s (sender m)))) + unat (cleartext l)) mod 2 ^ 32
      else (unat (dec (aggLiquidity s)) + unat (cleartext l)) mod 2 ^ 32) \<and>
   unat (dec (numPositions (step kec s (m, SubmitPosition l pl pu ip)))) =
     (if certified3 ip m s l pl pu \<and> \<not> exists (positions s (sender m))
      then (unat (dec (numPositions s)) + 1) mod 2 ^ 32
      else unat (dec (numPositions s))) \<and>
   unat (dec (suggestedFeeRatio (step kec s (m, SubmitVolatility v ip')))) =
     (if certified ip' m s v \<and> 50 \<le> cleartext v
      then (unat (dec (suggestedFeeRatio s)) + 1) mod 2 ^ 32
      else unat (dec (suggestedFeeRatio s))) \<and>
   unat (dec (twoTimesNumPositions (deployed kec d self txs))) =
     (2 * unat (dec (numPositions (deployed kec d self txs)))) mod 2 ^ 32 \<and>
   unat (dec (aggLiquidity (deployed kec d self txs))) =
     (\<Sum>a | exists (positions (deployed kec d self txs) a).
        unat (dec (liquidity (positions (deployed kec d self txs) a)))) mod 2 ^ 32 \<and>
   unat (dec (numPositions (deployed keccak0 deployer amm (crowd 2147483648)))) = 2147483648 \<and>
   unat (dec (twoTimesNumPositions (deployed keccak0 deployer amm (crowd 2147483648)))) = 0 \<and>
   unat (dec (aggLiquidity (deployed keccak0 deployer amm wrapping))) = 0 \<and>
   unat (dec (liquidity (positions (deployed keccak0 deployer amm wrapping) alice))) =
     3221225472 \<and>
   exec keccak0 (position_tx alice 3 5 100 200) (deployed keccak0 deployer amm wrapping) =
     Inr (step keccak0 (deployed keccak0 deployer amm wrapping) (position_tx alice 3 5 100 200)) \<and>
   unat (dec (aggLiquidity (step keccak0 (deployed keccak0 deployer amm wrapping)
      (position_tx alice 3 5 100 200)))) = 1073741829"
proof -
  have ops: "unat (dec (FHE_add a b)) = (unat (dec a) + unat (dec b)) mod 2 ^ 32 \<and>
      unat (dec (FHE_sub a b)) = (unat (dec a) + 2 ^ 32 - unat (dec b)) mod 2 ^ 32"
    by (simp add: unat_add_mod unat_sub_mod)
  have agg: "unat (dec (aggLiquidity (step kec s (m, SubmitPosition l pl pu ip)))) =
     (if \<not> certified3 ip m s l pl pu then unat (dec (aggLiquidity s))
      else if exists (positions s (sender m))
      then (unat (dec (aggLiquidity s)) + 2 ^ 32 -
              unat (dec (liquidity (positions s (sender m)))) + unat (cleartext l)) mod 2 ^ 32
      else (unat (dec (aggLiquidity s)) + unat (cleartext l)) mod 2 ^ 32)"
    by (simp add: step_submitPosition unat_add_mod unat_sub_plus_mod)
  have num: "unat (dec (numPositions (step kec s (m, SubmitPosition l pl pu ip)))) =
     (if certified3 ip m s l pl pu \<and> \<not> exists (positions s (sender m))
      then (unat (dec (numPositions s)) + 1) mod 2 ^ 32
      else unat (dec (numPositions s)))"
    by (simp add: step_submitPosition unat_add_mod)
  have fee: "unat (dec (suggestedFeeRatio (step kec s (m, SubmitVolatility v ip')))) =
     (if certified ip' m s v \<and> 50 \<le> cleartext v
      then (unat (dec (suggestedFeeRatio s)) + 1) mod 2 ^ 32
      else unat (dec (suggestedFeeRatio s)))"
    by (simp add: step_submitVolatility unat_add_mod)
  have "coDerived (deployed kec d self txs)"
    by (simp add: deployed_def run_coDerived constructor_coDerived)
  then have two: "unat (dec (twoTimesNumPositions (deployed kec d self txs))) =
      (2 * unat (dec (numPositions (deployed kec d self txs)))) mod 2 ^ 32"
    by (simp add: coDerived_def)
  have sum: "unat (dec (aggLiquidity (deployed kec d self txs))) =
     (\<Sum>a | exists (positions (deployed kec d self txs) a).
        unat (dec (liquidity (positions (deployed kec d self txs) a)))) mod 2 ^ 32"
    using deployed_consistent [of kec d self txs]
    by (simp add: consistent_def total_def unat_sum_mod)
  have replace: "exec keccak0 (position_tx alice 3 5 100 200)
      (deployed keccak0 deployer amm wrapping) =
     Inr (step keccak0 (deployed keccak0 deployer amm wrapping) (position_tx alice 3 5 100 200))"
    by (simp add: deployed_genesis exec_position_tx)
  show ?thesis
    using ops submitPosition_total [of kec m l pl pu ip s] agg num fee two sum
      crowd_counters [of keccak0] wrapping_state wrapping_replace replace
    by (simp only: deployed_genesis)
qed

end
